theory Spec2Isabelle
  imports Main "HOL-Library.Sublist"
begin
section \<open>JavaScript values\<close>

text \<open>
  The scraper's dataset items and the backends' response bodies are parsed JSON of no
  fixed shape. A value is one of JavaScript's: \<open>undefined\<close> (what reading a missing
  property gives), \<open>null\<close>, a boolean, a number, a string, an array or an object.
  Numbers are restricted to integers of magnitude below \<open>10^21\<close>. An object is its property table, read with
  \<open>map_of\<close>.
\<close>

datatype jsval =
    JUndefined
  | JNull
  | JBool bool
  | JNum int
  | JStr string
  | JArr "jsval list"
  | JObj "(string \<times> jsval) list"

text \<open>Truthiness, as \<open>!v\<close>, \<open>v && ...\<close>, \<open>v || ...\<close> and \<open>if (v)\<close> read it.\<close>

fun truthy :: "jsval \<Rightarrow> bool" where
  "truthy JUndefined = False"
| "truthy JNull = False"
| "truthy (JBool b) = b"
| "truthy (JNum n) = (n \<noteq> 0)"
| "truthy (JStr s) = (s \<noteq> [])"
| "truthy (JArr xs) = True"
| "truthy (JObj kvs) = True"

fun is_string :: "jsval \<Rightarrow> bool" where
  "is_string (JStr s) = True"
| "is_string v = False"

section \<open>String primitives\<close>

text \<open>\<open>s.includes(pat)\<close>: \<open>pat\<close> occurs in \<open>s\<close> at some position.\<close>

fun js_includes :: "string \<Rightarrow> string \<Rightarrow> bool" where
  "js_includes [] pat = (pat = [])"
| "js_includes (c # cs) pat = (prefix pat (c # cs) \<or> js_includes cs pat)"

text \<open>\<open>s.split(sep)\<close> for a one-character separator: the pieces between its occurrences.\<close>

fun js_split :: "char \<Rightarrow> string \<Rightarrow> string list" where
  "js_split sep [] = [[]]"
| "js_split sep (c # cs) =
     (if c = sep then [] # js_split sep cs
      else (case js_split sep cs of
              [] \<Rightarrow> [[c]]
            | p # ps \<Rightarrow> (c # p) # ps))"

text \<open>
  \<open>s.replace(/\/+$/, '')\<close>: the regular expression matches at the leftmost position from
  which only slashes (at least one) remain up to the end of the string, and the match
  is deleted.
\<close>

fun replace_trailing_slashes :: "string \<Rightarrow> string" where
  "replace_trailing_slashes [] = []"
| "replace_trailing_slashes (c # cs) =
     (if c = CHR ''/'' \<and> list_all (\<lambda>x. x = CHR ''/'') cs then []
      else c # replace_trailing_slashes cs)"

text \<open>\<open>s.replace(pat, rep)\<close> for a string pattern: the first occurrence is replaced.\<close>

fun replace_first :: "string \<Rightarrow> string \<Rightarrow> string \<Rightarrow> string" where
  "replace_first pat rep [] = (if pat = [] then rep else [])"
| "replace_first pat rep (c # cs) =
     (if prefix pat (c # cs) then rep @ drop (length pat) (c # cs)
      else c # replace_first pat rep cs)"

section \<open>The URL normalizer (apify.js, normalizeLinkedInUrl)\<close>

text \<open>The result \<open>None\<close> is the source's \<open>null\<close>.\<close>

definition normalizeLinkedInUrl :: "jsval \<Rightarrow> string option" where
  "normalizeLinkedInUrl url =
     (case url of
        JStr s \<Rightarrow>
          if s = [] then None
          else if \<not> js_includes s ''linkedin.com'' then None
          else
            let normalized = replace_trailing_slashes (js_split CHR ''?'' s ! 0)
            in Some (if prefix ''http://'' normalized
                     then replace_first ''http://'' ''https://'' normalized
                     else normalized)
      | _ \<Rightarrow> None)"

text \<open>
  The normalizer's contract in the specification's words: everything from the first
  \<open>?\<close> onward is removed, then the trailing slashes, and an \<open>http://\<close> prefix
  becomes \<open>https://\<close>.
\<close>

definition strip_query :: "string \<Rightarrow> string" where
  "strip_query s = takeWhile (\<lambda>c. c \<noteq> CHR ''?'') s"

definition strip_trailing_slashes :: "string \<Rightarrow> string" where
  "strip_trailing_slashes s = rev (dropWhile (\<lambda>c. c = CHR ''/'') (rev s))"

definition upgrade_scheme :: "string \<Rightarrow> string" where
  "upgrade_scheme s = (if prefix ''http://'' s then ''https://'' @ drop 7 s else s)"

definition canonical_spec :: "string \<Rightarrow> string" where
  "canonical_spec s = upgrade_scheme (strip_trailing_slashes (strip_query s))"



definition spelling :: "string \<Rightarrow> string \<Rightarrow> nat \<Rightarrow> string \<Rightarrow> string" where
  "spelling scheme stem k query = scheme @ stem @ replicate k CHR ''/'' @ query"

section \<open>The engager extractor (apify.js)\<close>

datatype exn = TypeError | Failure string

definition nullish :: "jsval \<Rightarrow> bool" where
  "nullish v = (v = JUndefined \<or> v = JNull)"

text \<open>
  \<open>v[k]\<close> for a value that is neither \<open>null\<close> nor \<open>undefined\<close> (reading a property of
  those raises a TypeError, which the callers below check first). None of the property
  names the extractor reads is a string, number, boolean or array property, except
  \<open>link\<close> of a string, which is a function and fails every test a missing property
  fails; so only objects answer.
\<close>

fun js_get :: "jsval \<Rightarrow> string \<Rightarrow> jsval" where
  "js_get (JObj kvs) k = (case map_of kvs k of None \<Rightarrow> JUndefined | Some v \<Rightarrow> v)"
| "js_get v k = JUndefined"

text \<open>\<open>a || b\<close>\<close>

definition js_or :: "jsval \<Rightarrow> jsval \<Rightarrow> jsval" where
  "js_or a b = (if truthy a then a else b)"

text \<open>\<open>typeof v === 'object'\<close> for a truthy \<open>v\<close>: arrays and objects.\<close>

fun is_object :: "jsval \<Rightarrow> bool" where
  "is_object (JArr xs) = True"
| "is_object (JObj kvs) = True"
| "is_object v = False"

fun str_of :: "jsval \<Rightarrow> string" where
  "str_of (JStr s) = s"
| "str_of v = []"

text \<open>Sequencing of steps that can raise, and a loop over a list that stops at the first error.\<close>

definition then_do :: "exn + 'a \<Rightarrow> ('a \<Rightarrow> exn + 'b) \<Rightarrow> exn + 'b" where
  "then_do m f = (case m of Inl e \<Rightarrow> Inl e | Inr x \<Rightarrow> f x)"

fun for_each :: "('a \<Rightarrow> 'b \<Rightarrow> exn + 'b) \<Rightarrow> 'a list \<Rightarrow> 'b \<Rightarrow> exn + 'b" where
  "for_each f [] acc = Inr acc"
| "for_each f (x # xs) acc = then_do (f x acc) (for_each f xs)"

fun collect :: "(exn + 'a) list \<Rightarrow> exn + 'a list" where
  "collect [] = Inr []"
| "collect (m # ms) = then_do m (\<lambda>x. then_do (collect ms) (\<lambda>xs. Inr (x # xs)))"

text \<open>
  String conversion inside a template literal. A number is an integer of magnitude below
  \<open>10^21\<close>, printed in decimal notation. An array joins its elements with commas, \<open>null\<close>
  and \<open>undefined\<close> elements as empty strings. An object prints as \<open>[object Object]\<close>,
  unless it has a key \<open>toString\<close> of its own: the value of that key, being data, cannot
  be called, and the conversion raises a TypeError.
\<close>

fun dec_nat :: "nat \<Rightarrow> string" where
  "dec_nat n = (if n < 10 then [''0123456789'' ! n]
                else dec_nat (n div 10) @ [''0123456789'' ! (n mod 10)])"

declare dec_nat.simps [simp del]

fun js_join :: "string list \<Rightarrow> string" where
  "js_join [] = []"
| "js_join [s] = s"
| "js_join (s # t # ss) = s @ '','' @ js_join (t # ss)"

fun js_to_string :: "jsval \<Rightarrow> exn + string" where
  "js_to_string JUndefined = Inr ''undefined''"
| "js_to_string JNull = Inr ''null''"
| "js_to_string (JBool b) = Inr (if b then ''true'' else ''false'')"
| "js_to_string (JNum n) = Inr (if n < 0 then ''-'' @ dec_nat (nat (- n)) else dec_nat (nat n))"
| "js_to_string (JStr s) = Inr s"
| "js_to_string (JArr xs) =
     then_do (collect (map (\<lambda>x. if x = JUndefined \<or> x = JNull then Inr [] else js_to_string x) xs))
       (\<lambda>ss. Inr (js_join ss))"
| "js_to_string (JObj kvs) =
     (if map_of kvs ''toString'' = None then Inr ''[object Object]'' else Inl TypeError)"

text \<open>
  The result set is a JavaScript \<open>Set\<close> of strings: \<open>add\<close> keeps the first insertion
  of a value and the insertion order, which \<open>Array.from\<close> reads back.
\<close>

definition set_add :: "string list \<Rightarrow> string \<Rightarrow> string list" where
  "set_add urls u = (if u \<in> set urls then urls else urls @ [u])"

definition urlFields :: "string list" where
  "urlFields = [''profileUrl'', ''profile_url'', ''linkedinUrl'', ''linkedin_url'',
                ''url'', ''link'', ''actorUrl'', ''authorUrl'', ''memberUrl'']"

definition nestedObjects :: "string list" where
  "nestedObjects = [''actor'', ''user'', ''profile'', ''reactor'', ''author'', ''member'',
                    ''commenter'']"

text \<open>\<open>const normalized = this.normalizeLinkedInUrl(v); if (normalized) profileUrls.add(normalized);\<close>\<close>

definition add_normalized :: "jsval \<Rightarrow> string list \<Rightarrow> string list" where
  "add_normalized v urls =
     (case normalizeLinkedInUrl v of
        None \<Rightarrow> urls
      | Some normalized \<Rightarrow> if normalized \<noteq> [] then set_add urls normalized else urls)"

text \<open>The body of the loops over \<open>urlFields\<close>, on the item or on a nested object.\<close>

definition add_url_field :: "jsval \<Rightarrow> string list \<Rightarrow> string \<Rightarrow> string list" where
  "add_url_field obj urls field =
     (let v = js_get obj field
      in if truthy v \<and> is_string v \<and> js_includes (str_of v) ''linkedin.com/in/''
         then add_normalized v urls
         else urls)"

text \<open>\<open>if (obj.k) profileUrls.add(`https://www.linkedin.com/in/${obj.k}`);\<close>\<close>

definition add_identifier :: "jsval \<Rightarrow> string \<Rightarrow> string list \<Rightarrow> exn + string list" where
  "add_identifier obj k urls =
     (if truthy (js_get obj k)
      then then_do (js_to_string (js_get obj k))
             (\<lambda>s. Inr (set_add urls (''https://www.linkedin.com/in/'' @ s)))
      else Inr urls)"

text \<open>The body of the loop over \<open>nestedObjects\<close>.\<close>

definition add_nested :: "jsval \<Rightarrow> string \<Rightarrow> string list \<Rightarrow> exn + string list" where
  "add_nested item objName urls =
     (let obj = js_get item objName
      in if truthy obj \<and> is_object obj
         then then_do (add_identifier obj ''publicId'' (foldl (add_url_field obj) urls urlFields))
                (\<lambda>urls1. then_do (add_identifier obj ''publicIdentifier'' urls1)
                   (add_identifier obj ''vanityName''))
         else Inr urls)"

definition extractUrlFromItem :: "jsval \<Rightarrow> string list \<Rightarrow> exn + string list" where
  "extractUrlFromItem item profileUrls =
     (if \<not> truthy item then Inr profileUrls
      else then_do (for_each (add_nested item) nestedObjects
                      (foldl (add_url_field item) profileUrls urlFields))
             (\<lambda>urls1. then_do (add_identifier item ''publicId'' urls1)
                (add_identifier item ''publicIdentifier'')))"

text \<open>
  The loop over the comments: each comment is inspected, then its \<open>author\<close>; reading
  \<open>comment.author\<close> of a \<open>null\<close> or \<open>undefined\<close> comment raises.
\<close>

fun extract_comments :: "jsval list \<Rightarrow> string list \<Rightarrow> exn + string list" where
  "extract_comments [] urls = Inr urls"
| "extract_comments (comment # rest) urls =
     then_do (extractUrlFromItem comment urls)
       (\<lambda>urls1. if nullish comment then Inl TypeError
                else if truthy (js_get comment ''author'')
                then then_do (extractUrlFromItem (js_get comment ''author'') urls1)
                       (extract_comments rest)
                else extract_comments rest urls1)"

text \<open>
  The arrays a post is read for: \<open>post.reactions || post.likers || post.likes || []\<close>,
  \<open>post.comments || post.commenters || []\<close> and
  \<open>post.engagements || post.engagement || []\<close>; a value that is not an array is skipped.
\<close>

definition array_items :: "jsval \<Rightarrow> jsval list" where
  "array_items v = (case v of JArr xs \<Rightarrow> xs | _ \<Rightarrow> [])"

definition reaction_items :: "jsval \<Rightarrow> jsval list" where
  "reaction_items post =
     array_items (js_or (js_or (js_or (js_get post ''reactions'') (js_get post ''likers''))
                           (js_get post ''likes'')) (JArr []))"

definition comment_items :: "jsval \<Rightarrow> jsval list" where
  "comment_items post =
     array_items (js_or (js_or (js_get post ''comments'') (js_get post ''commenters'')) (JArr []))"

definition engagement_items :: "jsval \<Rightarrow> jsval list" where
  "engagement_items post =
     array_items (js_or (js_or (js_get post ''engagements'') (js_get post ''engagement''))
                    (JArr []))"

text \<open>
  The body of the loop over the posts, step by step: the author's profile URL, the
  reactions, the comments, the engagements.
\<close>

definition post_author :: "jsval \<Rightarrow> string list \<Rightarrow> string list" where
  "post_author post urls =
     (if truthy (js_get post ''authorProfileUrl'')
      then add_normalized (js_get post ''authorProfileUrl'') urls
      else urls)"

definition post_reactions :: "jsval \<Rightarrow> string list \<Rightarrow> exn + string list" where
  "post_reactions post urls = for_each extractUrlFromItem (reaction_items post) urls"

definition post_comments :: "jsval \<Rightarrow> string list \<Rightarrow> exn + string list" where
  "post_comments post urls = extract_comments (comment_items post) urls"

definition post_engagements :: "jsval \<Rightarrow> string list \<Rightarrow> exn + string list" where
  "post_engagements post urls = for_each extractUrlFromItem (engagement_items post) urls"

definition extract_post :: "jsval \<Rightarrow> string list \<Rightarrow> exn + string list" where
  "extract_post post urls =
     (if nullish post then Inl TypeError
      else then_do (post_reactions post (post_author post urls))
             (\<lambda>urls2. then_do (post_comments post urls2) (post_engagements post)))"

fun extract_posts :: "jsval list \<Rightarrow> string list \<Rightarrow> exn + string list" where
  "extract_posts [] urls = Inr urls"
| "extract_posts (post # rest) urls = then_do (extract_post post urls) (extract_posts rest)"

text \<open>
  The debug block at the head of \<open>extractProfileUrls\<close> evaluates
  \<open>Object.keys(postData[0])\<close>, \<open>postData[0].reactions\<close>, \<open>postData[0].comments\<close> and,
  for a non-empty array \<open>xs\<close> of those, \<open>JSON.stringify(xs[0]).substring(0, 300)\<close>,
  where \<open>JSON.stringify(undefined)\<close> is \<open>undefined\<close>.
\<close>

definition sample_raises :: "jsval \<Rightarrow> bool" where
  "sample_raises v = (case v of JArr (x # xs) \<Rightarrow> x = JUndefined | _ \<Rightarrow> False)"

definition log_sample :: "jsval list \<Rightarrow> exn option" where
  "log_sample postData =
     (case postData of
        [] \<Rightarrow> None
      | first # rest \<Rightarrow>
          if nullish first then Some TypeError
          else if sample_raises (js_get first ''reactions'') then Some TypeError
          else if sample_raises (js_get first ''comments'') then Some TypeError
          else None)"

definition extractProfileUrls :: "jsval list \<Rightarrow> exn + string list" where
  "extractProfileUrls postData =
     (case log_sample postData of
        Some e \<Rightarrow> Inl e
      | None \<Rightarrow> extract_posts postData [])"







section \<open>The enrichment batcher (apollo.js)\<close>

text \<open>
  What a request to a backend comes to: a response with its body, a failure with an HTTP
  status (the client raises for a status outside 2xx), or no response at all.
\<close>

datatype http_result = Response jsval | HttpFailure nat | NoResponse

record contact =
  email :: jsval
  firstName :: jsval
  lastName :: jsval
  title :: jsval
  companyName :: jsval
  linkedinUrl :: string
  emailStatus :: jsval

text \<open>The lead as the campaign backend takes it (\<open>formatLead\<close> builds it).\<close>

record lead =
  lead_email :: jsval
  first_name :: jsval
  last_name :: jsval
  company :: jsval
  lead_title :: jsval
  linkedin_url :: jsval

text \<open>The run statistics of the controller; \<open>failed'\<close> is the source's \<open>failed\<close>.\<close>

record stats =
  engagers :: nat
  enriched :: nat
  pushed :: jsval
  failed' :: jsval

text \<open>
  The messages of the controller: the three status messages, the two plain messages
  (\<open>No engagers found for this post.\<close>, \<open>No verified emails found from Apollo enrichment.\<close>),
  the summary of the statistics and the error message.
\<close>

datatype notice =
    StatusScraping
  | NoEngagersFound
  | StatusEnriching nat
  | NoVerifiedEmails
  | StatusPushing nat
  | Summary stats
  | PipelineFailed exn

text \<open>
  The observable steps of a run. The three \<open>sleep\<close> call sites are told apart: the
  retry pause of \<open>enrichProfile\<close>, the pause between batches of \<open>enrichProfiles\<close>, and
  the pacing pause of \<open>addLeadsIndividually\<close>. \<open>Wave\<close> marks the dispatch of one batch
  (\<open>Promise.all\<close> over the batch's per-URL calls).
\<close>

datatype event =
    Notify notice
  | ActorRun string
  | ApolloMatch string
  | RetrySleep nat
  | Wave "string list"
  | BatchSleep nat
  | LeadPost "lead list"
  | PaceSleep nat

text \<open>\<open>v?.k\<close>\<close>

definition opt_get :: "jsval \<Rightarrow> string \<Rightarrow> jsval" where
  "opt_get v k = (if nullish v then JUndefined else js_get v k)"

text \<open>
  The \<open>try\<close> block of \<open>enrichProfile\<close> once the response has arrived. A body that is
  \<open>null\<close> or \<open>undefined\<close> makes \<open>response.data.person\<close> raise a TypeError, which the
  \<open>catch\<close> block turns into \<open>null\<close> (the error carries no response, so it is not taken
  for a rate limit).
\<close>

definition enrich_response :: "string \<Rightarrow> jsval \<Rightarrow> contact option" where
  "enrich_response url data =
     (if nullish data then None
      else
        let person = js_get data ''person''
        in if \<not> truthy person then None
           else
             let mail = js_get person ''email'';
                 status = js_get person ''email_status''
             in if \<not> truthy mail \<or> status = JStr ''guessed'' \<or> status = JStr ''unavailable''
                then None
                else Some \<lparr> email = mail,
                            firstName = js_or (js_get person ''first_name'') (JStr []),
                            lastName = js_or (js_get person ''last_name'') (JStr []),
                            title = js_or (js_get person ''title'') (JStr []),
                            companyName = js_or (js_or (opt_get (js_get person ''organization'') ''name'')
                                                   (js_get person ''company'')) (JStr []),
                            linkedinUrl = url,
                            emailStatus = status \<rparr>)"

text \<open>
  \<open>enrichProfile\<close>. The backend is a function of the URL and of the number \<open>k\<close> of
  requests already made for it. A 429 sleeps 5000 ms and calls \<open>enrichProfile\<close> again
  with the same URL; nothing bounds the recursion, so the function is partial: \<open>None\<close>
  is a call that never returns. The steps are appended to the trace \<open>tr\<close>.
\<close>

partial_function (option) enrichProfile ::
  "(string \<Rightarrow> nat \<Rightarrow> http_result) \<Rightarrow> string \<Rightarrow> nat \<Rightarrow> event list
     \<Rightarrow> (contact option \<times> event list) option" where
  "enrichProfile apollo url k tr =
     (case apollo url k of
        Response data \<Rightarrow> Some (enrich_response url data, tr @ [ApolloMatch url])
      | HttpFailure status \<Rightarrow>
          if status = 429
          then enrichProfile apollo url (Suc k) (tr @ [ApolloMatch url, RetrySleep 5000])
          else Some (None, tr @ [ApolloMatch url])
      | NoResponse \<Rightarrow> Some (None, tr @ [ApolloMatch url]))"

text \<open>
  \<open>chunkArray\<close>. Each chunk is a new array; it is modelled with its identity, the number
  of chunks allocated before it, because \<open>enrichProfiles\<close> looks a batch up with
  \<open>indexOf\<close>, which compares arrays by identity and not by content. The size is a
  natural number; with size 0 the loop index never advances and the loop does not end.
\<close>

type_synonym chunk = "nat \<times> string list"

partial_function (option) chunk_loop ::
  "string list \<Rightarrow> nat \<Rightarrow> nat \<Rightarrow> chunk list \<Rightarrow> chunk list option" where
  "chunk_loop array sz i chunks =
     (if i < length array
      then chunk_loop array sz (i + sz)
             (chunks @ [(length chunks, take sz (drop i array))])
      else Some chunks)"

definition chunkArray :: "string list \<Rightarrow> nat \<Rightarrow> chunk list option" where
  "chunkArray array sz = chunk_loop array sz 0 []"

text \<open>\<open>batches.indexOf(batch)\<close>: the first position holding the same array, or -1.\<close>

fun index_of :: "chunk list \<Rightarrow> chunk \<Rightarrow> int" where
  "index_of [] b = - 1"
| "index_of (c # cs) b =
     (if fst c = fst b then 0
      else let r = index_of cs b in if r < 0 then - 1 else r + 1)"

text \<open>
  \<open>Promise.all(batch.map(url => this.enrichProfile(url)))\<close>: one call per URL, each
  from its first request, the results in the order of the batch; the batch settles when
  every call has returned. The calls run interleaved: \<open>map\<close> starts them one after the
  other, so the first requests of all of them are sent, in the order of the batch, before
  any call goes on. The trace lets the calls advance in step (the first step of every
  call, then the second step of every call that has one, and so on), which is the
  schedule where the answers of a round arrive before the first pause of the round ends.
\<close>

definition enrich_batch ::
  "(string \<Rightarrow> nat \<Rightarrow> http_result) \<Rightarrow> string list
     \<Rightarrow> (contact option list \<times> event list) option" where
  "enrich_batch apollo batch =
     (case those (map (\<lambda>url. enrichProfile apollo url 0 []) batch) of
        None \<Rightarrow> None
      | Some calls \<Rightarrow> Some (map fst calls, concat (transpose (map snd calls))))"

text \<open>The loop over the batches; \<open>rest\<close> are the batches still to be processed.\<close>

fun enrich_loop ::
  "(string \<Rightarrow> nat \<Rightarrow> http_result) \<Rightarrow> chunk list \<Rightarrow> nat \<Rightarrow> chunk list
     \<Rightarrow> contact list \<Rightarrow> event list \<Rightarrow> (contact list \<times> event list) option" where
  "enrich_loop apollo batches delayMs [] enrichedContacts tr = Some (enrichedContacts, tr)"
| "enrich_loop apollo batches delayMs (batch # rest) enrichedContacts tr =
     (case enrich_batch apollo (snd batch) of
        None \<Rightarrow> None
      | Some (results, steps) \<Rightarrow>
          enrich_loop apollo batches delayMs rest
            (enrichedContacts @ List.map_filter id results)
            (tr @ [Wave (snd batch)] @ steps
               @ (if index_of batches batch < int (length batches) - 1
                  then [BatchSleep delayMs]
                  else [])))"

definition enrichProfiles ::
  "(string \<Rightarrow> nat \<Rightarrow> http_result) \<Rightarrow> string list \<Rightarrow> nat \<Rightarrow> nat
     \<Rightarrow> (contact list \<times> event list) option" where
  "enrichProfiles apollo linkedinUrls concurrency delayMs =
     (case chunkArray linkedinUrls concurrency of
        None \<Rightarrow> None
      | Some batches \<Rightarrow> enrich_loop apollo batches delayMs batches [] [])"

text \<open>
  A per-URL call settles after \<open>n\<close> retries when the backend answers the first \<open>n\<close>
  requests for the URL with 429 and the next one with anything else.
\<close>

definition settles :: "(string \<Rightarrow> nat \<Rightarrow> http_result) \<Rightarrow> string \<Rightarrow> nat \<Rightarrow> bool" where
  "settles apollo url n =
     (list_all (\<lambda>j. apollo url j = HttpFailure 429) [0..<n] \<and> apollo url n \<noteq> HttpFailure 429)"

text \<open>
  The specification's wording of the batches: consecutive pieces of the given width, and
  the schedule of waves with one pause between two waves.
\<close>

function spec_chunks :: "nat \<Rightarrow> 'a list \<Rightarrow> 'a list list" where
  "spec_chunks w xs = (if xs = [] \<or> w = 0 then [] else take w xs # spec_chunks w (drop w xs))"
  by pat_completeness auto
termination
  by (relation "measure (\<lambda>(w, xs). length xs)") auto

declare spec_chunks.simps [simp del]

text \<open>The batches numbered by their identities, from \<open>i\<close> on.\<close>

fun number_from :: "nat \<Rightarrow> 'a list \<Rightarrow> (nat \<times> 'a) list" where
  "number_from i [] = []"
| "number_from i (x # xs) = (i, x) # number_from (Suc i) xs"

fun pace :: "nat \<Rightarrow> string list list \<Rightarrow> event list" where
  "pace d [] = []"
| "pace d [b] = [Wave b]"
| "pace d (b # c # bs) = Wave b # BatchSleep d # pace d (c # bs)"

fun is_schedule_event :: "event \<Rightarrow> bool" where
  "is_schedule_event (Wave b) = True"
| "is_schedule_event (BatchSleep d) = True"
| "is_schedule_event e = False"

fun is_batch_sleep :: "event \<Rightarrow> bool" where
  "is_batch_sleep (BatchSleep d) = True"
| "is_batch_sleep e = False"

fun waves :: "event list \<Rightarrow> string list list" where
  "waves [] = []"
| "waves (Wave b # tr) = b # waves tr"
| "waves (e # tr) = waves tr"

definition schedule :: "event list \<Rightarrow> event list" where
  "schedule tr = filter is_schedule_event tr"

text \<open>
  The specification's wording of the acceptance test: the response contains a person with
  a non-empty email (for a string, not the empty string; an absent or \<open>null\<close> email
  fails) whose status is neither \<open>guessed\<close> nor \<open>unavailable\<close>.
\<close>

definition has_verified_email :: "jsval \<Rightarrow> bool" where
  "has_verified_email data =
     (\<not> nullish data \<and> truthy (js_get data ''person'')
      \<and> truthy (js_get (js_get data ''person'') ''email'')
      \<and> js_get (js_get data ''person'') ''email_status'' \<noteq> JStr ''guessed''
      \<and> js_get (js_get data ''person'') ''email_status'' \<noteq> JStr ''unavailable'')"

text \<open>What a per-URL call returns on an answer that is not a 429.\<close>

definition answer_result :: "string \<Rightarrow> http_result \<Rightarrow> contact option" where
  "answer_result url r = (case r of Response data \<Rightarrow> enrich_response url data | _ \<Rightarrow> None)"

text \<open>The trace of \<open>n\<close> rate-limited requests followed by the request that is answered.\<close>

definition retry_trace :: "string \<Rightarrow> nat \<Rightarrow> event list" where
  "retry_trace url n = concat (replicate n [ApolloMatch url, RetrySleep 5000]) @ [ApolloMatch url]"

text \<open>
  The specification's wording of a run of the batcher, for per-URL calls that settle
  after \<open>n url\<close> retries. A wave dispatches one request per URL of the batch, in order;
  the calls that were rate-limited then pause and ask again, in step, until each has its
  answer. Between two waves there is one pause, and none after the last.
\<close>

definition retry_tail :: "string \<Rightarrow> nat \<Rightarrow> event list" where
  "retry_tail url n = concat (replicate n [RetrySleep 5000, ApolloMatch url])"

definition wave_steps :: "(string \<Rightarrow> nat) \<Rightarrow> string list \<Rightarrow> event list" where
  "wave_steps n b =
     Wave b # map ApolloMatch b @ concat (transpose (map (\<lambda>url. retry_tail url (n url)) b))"

fun run_steps :: "(string \<Rightarrow> nat) \<Rightarrow> nat \<Rightarrow> string list list \<Rightarrow> event list" where
  "run_steps n d [] = []"
| "run_steps n d [b] = wave_steps n b"
| "run_steps n d (b # c # bs) = wave_steps n b @ BatchSleep d # run_steps n d (c # bs)"

section \<open>The delivery submitter (smartlead.js)\<close>

definition formatLead :: "contact \<Rightarrow> lead" where
  "formatLead c =
     \<lparr> lead_email = email c,
       first_name = js_or (firstName c) (JStr []),
       last_name = js_or (lastName c) (JStr []),
       company = js_or (companyName c) (JStr []),
       lead_title = js_or (title c) (JStr []),
       linkedin_url = js_or (JStr (linkedinUrl c)) (JStr []) \<rparr>"

text \<open>
  One entry of the fallback's result list, \<open>{ success, email, response | error }\<close>; the
  last field keeps what the request came to.
\<close>

record outcome =
  success :: bool
  outcome_email :: jsval
  detail :: http_result

text \<open>
  What \<open>addLeads\<close> returns: \<open>{ added, failed, leads }\<close> without leads to add and from the
  fallback, \<open>{ added, failed, response }\<close> from the bulk upload.
\<close>

record delivery =
  added :: jsval
  failed :: jsval
  leads :: "outcome list option"
  response :: "jsval option"

text \<open>
  \<open>addLeadsIndividually\<close>: one request per lead, a pause of 200 ms after each. The
  campaign backend is a function of the number \<open>k\<close> of requests already made and of the
  lead list posted. A request that fails is recorded and the loop goes on.
\<close>

fun individual_loop ::
  "(nat \<Rightarrow> lead list \<Rightarrow> http_result) \<Rightarrow> nat \<Rightarrow> lead list \<Rightarrow> int \<Rightarrow> int
     \<Rightarrow> outcome list \<Rightarrow> event list \<Rightarrow> delivery \<times> event list" where
  "individual_loop smartlead k [] addedCount failedCount results tr =
     (\<lparr> added = JNum addedCount, failed = JNum failedCount, leads = Some results,
        response = None \<rparr>, tr)"
| "individual_loop smartlead k (ld # rest) addedCount failedCount results tr =
     (case smartlead k [ld] of
        Response data \<Rightarrow>
          individual_loop smartlead (Suc k) rest (addedCount + 1) failedCount
            (results @ [\<lparr> success = True, outcome_email = lead_email ld,
                           detail = Response data \<rparr>])
            (tr @ [LeadPost [ld], PaceSleep 200])
      | err \<Rightarrow>
          individual_loop smartlead (Suc k) rest addedCount (failedCount + 1)
            (results @ [\<lparr> success = False, outcome_email = lead_email ld, detail = err \<rparr>])
            (tr @ [LeadPost [ld], PaceSleep 200]))"

definition addLeadsIndividually ::
  "(nat \<Rightarrow> lead list \<Rightarrow> http_result) \<Rightarrow> nat \<Rightarrow> lead list \<Rightarrow> event list
     \<Rightarrow> delivery \<times> event list" where
  "addLeadsIndividually smartlead k lds tr = individual_loop smartlead k lds 0 0 [] tr"

text \<open>
  \<open>addLeads\<close>. The bulk request and the reading of its result are inside the \<open>try\<close>
  block: a failed request, and a response without a body (reading \<open>result.upload_count\<close>
  raises a TypeError), both end in the \<open>catch\<close> block, which falls back to the individual
  requests.
\<close>

definition addLeads ::
  "(nat \<Rightarrow> lead list \<Rightarrow> http_result) \<Rightarrow> contact list \<Rightarrow> delivery \<times> event list" where
  "addLeads smartlead contacts =
     (if length contacts = 0
      then (\<lparr> added = JNum 0, failed = JNum 0, leads = Some [], response = None \<rparr>, [])
      else
        let formattedLeads = map formatLead contacts
        in case smartlead 0 formattedLeads of
             Response result \<Rightarrow>
               if nullish result
               then addLeadsIndividually smartlead 1 formattedLeads [LeadPost formattedLeads]
               else
                 let addedCount = js_or (js_or (js_get result ''upload_count'')
                                           (js_get result ''total_leads''))
                                    (JNum (int (length formattedLeads)));
                     failedCount = js_or (js_get result ''failed_count'') (JNum 0)
                 in (\<lparr> added = addedCount, failed = failedCount, leads = None,
                       response = Some result \<rparr>, [LeadPost formattedLeads])
           | err \<Rightarrow> addLeadsIndividually smartlead 1 formattedLeads [LeadPost formattedLeads])"

text \<open>The bulk submission raises: the request fails, or its response has no body.\<close>

fun bulk_raises :: "http_result \<Rightarrow> bool" where
  "bulk_raises (Response data) = nullish data"
| "bulk_raises r = True"

text \<open>The lead lists posted in a trace, in order.\<close>

fun lead_posts :: "event list \<Rightarrow> lead list list" where
  "lead_posts [] = []"
| "lead_posts (LeadPost lds # tr) = lds # lead_posts tr"
| "lead_posts (e # tr) = lead_posts tr"

section \<open>The pipeline controller (index.js)\<close>

text \<open>
  \<open>getPostEngagers\<close>: the actor run (a collaborator: it returns the dataset's items, an
  array, or raises) and the extraction; an error of either is raised again.
\<close>

definition getPostEngagers :: "(string \<Rightarrow> exn + jsval list) \<Rightarrow> string \<Rightarrow> exn + string list" where
  "getPostEngagers actor postUrl =
     (case actor postUrl of
        Inl e \<Rightarrow> Inl e
      | Inr results \<Rightarrow> if length results = 0 then Inr [] else extractProfileUrls results)"

text \<open>
  The \<open>try\<close> block of \<open>runPipeline\<close>. \<open>slack\<close> tells for each message whether sending it
  raises. The result is the error raised, or the statistics when the block returns,
  with the trace of what was done; \<open>None\<close> is a run that never returns (an enrichment
  that is rate-limited for ever).
\<close>

definition pipeline_body ::
  "(notice \<Rightarrow> exn option) \<Rightarrow> (string \<Rightarrow> exn + jsval list)
     \<Rightarrow> (string \<Rightarrow> nat \<Rightarrow> http_result) \<Rightarrow> (nat \<Rightarrow> lead list \<Rightarrow> http_result)
     \<Rightarrow> string \<Rightarrow> ((exn + stats) \<times> event list) option" where
  "pipeline_body slack actor apollo smartlead postUrl =
     (let stats0 = \<lparr> engagers = 0, enriched = 0, pushed = JNum 0, failed' = JNum 0 \<rparr>
      in case slack StatusScraping of
           Some e \<Rightarrow> Some (Inl e, [])
         | None \<Rightarrow>
      let tr1 = [Notify StatusScraping, ActorRun postUrl]
      in case getPostEngagers actor postUrl of
           Inl e \<Rightarrow> Some (Inl e, tr1)
         | Inr profileUrls \<Rightarrow>
      let stats1 = stats0 \<lparr> engagers := length profileUrls \<rparr>
      in if engagers stats1 = 0
         then (case slack NoEngagersFound of
                 Some e \<Rightarrow> Some (Inl e, tr1)
               | None \<Rightarrow> Some (Inr stats1, tr1 @ [Notify NoEngagersFound]))
         else
      case slack (StatusEnriching (engagers stats1)) of
           Some e \<Rightarrow> Some (Inl e, tr1)
         | None \<Rightarrow>
      case enrichProfiles apollo profileUrls 5 1000 of
           None \<Rightarrow> None
         | Some (enrichedContacts, tr_enrich) \<Rightarrow>
      let tr2 = tr1 @ [Notify (StatusEnriching (engagers stats1))] @ tr_enrich;
          stats2 = stats1 \<lparr> enriched := length enrichedContacts \<rparr>
      in if enriched stats2 = 0
         then (case slack NoVerifiedEmails of
                 Some e \<Rightarrow> Some (Inl e, tr2)
               | None \<Rightarrow>
                   (case slack (Summary stats2) of
                      Some e \<Rightarrow> Some (Inl e, tr2 @ [Notify NoVerifiedEmails])
                    | None \<Rightarrow>
                        Some (Inr stats2, tr2 @ [Notify NoVerifiedEmails, Notify (Summary stats2)])))
         else
      case slack (StatusPushing (enriched stats2)) of
           Some e \<Rightarrow> Some (Inl e, tr2)
         | None \<Rightarrow>
      case addLeads smartlead enrichedContacts of
           (smartleadResult, tr_deliver) \<Rightarrow>
      let tr3 = tr2 @ [Notify (StatusPushing (enriched stats2))] @ tr_deliver;
          stats3 = stats2 \<lparr> pushed := added smartleadResult, failed' := failed smartleadResult \<rparr>
      in case slack (Summary stats3) of
           Some e \<Rightarrow> Some (Inl e, tr3)
         | None \<Rightarrow> Some (Inr stats3, tr3 @ [Notify (Summary stats3)]))"

text \<open>
  \<open>runPipeline\<close>: the \<open>catch\<close> block sends the error message and raises the error again;
  if sending that message raises, its error is the one raised.
\<close>

definition runPipeline ::
  "(notice \<Rightarrow> exn option) \<Rightarrow> (string \<Rightarrow> exn + jsval list)
     \<Rightarrow> (string \<Rightarrow> nat \<Rightarrow> http_result) \<Rightarrow> (nat \<Rightarrow> lead list \<Rightarrow> http_result)
     \<Rightarrow> string \<Rightarrow> ((exn + stats) \<times> event list) option" where
  "runPipeline slack actor apollo smartlead postUrl =
     (case pipeline_body slack actor apollo smartlead postUrl of
        None \<Rightarrow> None
      | Some (Inr st, tr) \<Rightarrow> Some (Inr st, tr)
      | Some (Inl e, tr) \<Rightarrow>
          (case slack (PipelineFailed e) of
             Some e' \<Rightarrow> Some (Inl e', tr)
           | None \<Rightarrow> Some (Inl e, tr @ [Notify (PipelineFailed e)])))"

section \<open>Properties of the normalizer\<close>

lemma js_split_nonempty: "js_split sep s \<noteq> []"
  by (induction s) (auto split: list.splits)

lemma js_split_first: "js_split sep s ! 0 = takeWhile (\<lambda>c. c \<noteq> sep) s"
  by (induction s) (auto split: list.splits simp: js_split_nonempty)

lemma replace_trailing_slashes_eq:
  "replace_trailing_slashes s = strip_trailing_slashes s"
  unfolding strip_trailing_slashes_def
proof (induction s)
  case Nil
  then show ?case by simp
next
  case (Cons c cs)
  show ?case
  proof (cases "c = CHR ''/'' \<and> list_all (\<lambda>x. x = CHR ''/'') cs")
    case True
    then have "\<forall>x\<in>set (rev cs @ [c]). x = CHR ''/''"
      by (auto simp: list_all_iff)
    then have "dropWhile (\<lambda>c. c = CHR ''/'') (rev cs @ [c]) = []"
      by (simp only: dropWhile_eq_Nil_conv)
    with True show ?thesis by simp
  next
    case False
    then have "\<exists>x\<in>set (c # cs). x \<noteq> CHR ''/''"
      by (auto simp: list_all_iff)
    then show ?thesis using Cons False
      by (auto simp: dropWhile_append list_all_iff)
  qed
qed

lemma replace_first_prefix:
  "prefix pat s \<Longrightarrow> replace_first pat rep s = rep @ drop (length pat) s"
  by (cases s) auto

lemma js_includes_iff: "js_includes s pat \<longleftrightarrow> sublist pat s"
  by (induction s) (auto simp: sublist_Cons_right)

lemma normalize_string:
  "normalizeLinkedInUrl (JStr s) =
     (if js_includes s ''linkedin.com'' then Some (canonical_spec s) else None)"
proof -
  have "s = [] \<Longrightarrow> \<not> js_includes s ''linkedin.com''" by simp
  then show ?thesis
    by (auto simp: normalizeLinkedInUrl_def js_split_first replace_trailing_slashes_eq
        replace_first_prefix canonical_spec_def upgrade_scheme_def strip_query_def Let_def
        eval_nat_numeral)
qed

lemma normalize_non_string: "\<not> is_string v \<Longrightarrow> normalizeLinkedInUrl v = None"
  by (cases v) (auto simp: normalizeLinkedInUrl_def)

lemma strip_trailing_slashes_last:
  "strip_trailing_slashes s = [] \<or> last (strip_trailing_slashes s) \<noteq> CHR ''/''"
proof -
  let ?d = "dropWhile (\<lambda>c. c = CHR ''/'') (rev s)"
  show ?thesis
  proof (cases ?d)
    case Nil
    then show ?thesis by (simp add: strip_trailing_slashes_def)
  next
    case (Cons x xs)
    then have "x \<noteq> CHR ''/''"
      using hd_dropWhile[of "\<lambda>c. c = CHR ''/''" "rev s"] by auto
    with Cons show ?thesis by (simp add: strip_trailing_slashes_def)
  qed
qed

lemma strip_trailing_slashes_id:
  "s = [] \<or> last s \<noteq> CHR ''/'' \<Longrightarrow> strip_trailing_slashes s = s"
  by (cases s rule: rev_cases) (auto simp: strip_trailing_slashes_def)

lemma strip_query_id: "CHR ''?'' \<notin> set s \<Longrightarrow> strip_query s = s"
  by (auto simp: strip_query_def)

lemma strip_query_no_qmark: "CHR ''?'' \<notin> set (strip_query s)"
  unfolding strip_query_def by (induction s) auto

lemma strip_trailing_slashes_subset: "set (strip_trailing_slashes s) \<subseteq> set s"
  unfolding strip_trailing_slashes_def using set_dropWhileD by fastforce

lemma upgrade_scheme_subset: "set (upgrade_scheme s) \<subseteq> set s \<union> set ''https://''"
  unfolding upgrade_scheme_def using set_drop_subset[of 7 s] by auto

lemma canonical_spec_no_qmark: "CHR ''?'' \<notin> set (canonical_spec s)"
proof -
  have "CHR ''?'' \<notin> set (strip_trailing_slashes (strip_query s))"
    using strip_trailing_slashes_subset strip_query_no_qmark by blast
  moreover have "CHR ''?'' \<notin> set ''https://''" by simp
  ultimately show ?thesis
    unfolding canonical_spec_def using upgrade_scheme_subset by blast
qed

lemma upgrade_scheme_last:
  assumes "t = [] \<or> last t \<noteq> CHR ''/''"
  shows "upgrade_scheme t = [] \<or> last (upgrade_scheme t) \<noteq> CHR ''/''"
proof (cases "prefix ''http://'' t")
  case False
  with assms show ?thesis by (simp add: upgrade_scheme_def)
next
  case True
  then obtain r where t: "t = ''http://'' @ r" by (auto simp: prefix_def)
  with assms have "r \<noteq> []" by auto
  with t assms show ?thesis by (simp add: upgrade_scheme_def)
qed

lemma upgrade_scheme_not_http: "\<not> prefix ''http://'' (upgrade_scheme t)"
  by (auto simp: upgrade_scheme_def)

lemma canonical_spec_last:
  "canonical_spec s = [] \<or> last (canonical_spec s) \<noteq> CHR ''/''"
  unfolding canonical_spec_def
  by (rule upgrade_scheme_last) (rule strip_trailing_slashes_last)

lemma canonical_spec_idem: "canonical_spec (canonical_spec s) = canonical_spec s"
proof -
  let ?v = "canonical_spec s"
  have "strip_query ?v = ?v"
    by (rule strip_query_id) (rule canonical_spec_no_qmark)
  moreover have "strip_trailing_slashes ?v = ?v"
    by (rule strip_trailing_slashes_id) (rule canonical_spec_last)
  moreover have "upgrade_scheme ?v = ?v"
    using upgrade_scheme_not_http[of "strip_trailing_slashes (strip_query s)"]
    by (simp add: canonical_spec_def upgrade_scheme_def)
  ultimately show ?thesis by (simp add: canonical_spec_def[of ?v])
qed


text \<open>What the normalizer makes of a spelling.\<close>

lemma includes_spelling:
  assumes "js_includes stem pat"
  shows "js_includes (spelling sch stem k q) pat"
proof -
  from assms obtain p r where "stem = p @ pat @ r"
    by (auto simp: js_includes_iff sublist_def)
  then have "spelling sch stem k q = (sch @ p) @ pat @ (r @ replicate k CHR ''/'' @ q)"
    by (simp add: spelling_def)
  then show ?thesis
    unfolding js_includes_iff sublist_def by blast
qed






text \<open>
  C3. The three spellings of the specification normalize to
  \<open>https://linkedin.com/in/a\<close>. Every string that contains \<open>linkedin.com\<close> is accepted,
  and the result is the string cut at its first \<open>?\<close>, without its trailing slashes,
  with an \<open>http://\<close> prefix replaced by \<open>https://\<close>. A value that is not a string
  (\<open>null\<close> among them), the empty string, and a string without \<open>linkedin.com\<close> are
  rejected.
\<close>

theorem normalize_contract:
  "normalizeLinkedInUrl (JStr ''http://linkedin.com/in/a/'') = Some ''https://linkedin.com/in/a''
   \<and> normalizeLinkedInUrl (JStr ''https://linkedin.com/in/a?trk=x'') = Some ''https://linkedin.com/in/a''
   \<and> normalizeLinkedInUrl (JStr ''https://linkedin.com/in/a'') = Some ''https://linkedin.com/in/a''
   \<and> (js_includes s ''linkedin.com'' \<longrightarrow>
        normalizeLinkedInUrl (JStr s)
          = Some (upgrade_scheme (strip_trailing_slashes (strip_query s))))
   \<and> normalizeLinkedInUrl JNull = None
   \<and> (\<not> is_string v \<longrightarrow> normalizeLinkedInUrl v = None)
   \<and> normalizeLinkedInUrl (JStr []) = None
   \<and> (\<not> js_includes t ''linkedin.com'' \<longrightarrow> normalizeLinkedInUrl (JStr t) = None)"
proof -
  have "normalizeLinkedInUrl (JStr ''http://linkedin.com/in/a/'') = Some ''https://linkedin.com/in/a''"
    by (simp add: normalizeLinkedInUrl_def)
  moreover have "normalizeLinkedInUrl (JStr ''https://linkedin.com/in/a?trk=x'') = Some ''https://linkedin.com/in/a''"
    by (simp add: normalizeLinkedInUrl_def)
  moreover have "normalizeLinkedInUrl (JStr ''https://linkedin.com/in/a'') = Some ''https://linkedin.com/in/a''"
    by (simp add: normalizeLinkedInUrl_def)
  moreover have "normalizeLinkedInUrl JNull = None" "normalizeLinkedInUrl (JStr []) = None"
    by (simp_all add: normalizeLinkedInUrl_def)
  ultimately show ?thesis
    by (simp add: normalize_string normalize_non_string canonical_spec_def)
qed

theorem normalize_contract_witness:
  "js_includes ''http://www.linkedin.com/in/bob//?utm=1'' ''linkedin.com''
   \<and> normalizeLinkedInUrl (JStr ''http://www.linkedin.com/in/bob//?utm=1'')
       = Some ''https://www.linkedin.com/in/bob''
   \<and> \<not> is_string (JNum 7) \<and> normalizeLinkedInUrl (JNum 7) = None
   \<and> \<not> js_includes ''https://example.org/in/bob'' ''linkedin.com''
   \<and> normalizeLinkedInUrl (JStr ''https://example.org/in/bob'') = None"
  using normalize_contract[of "''http://www.linkedin.com/in/bob//?utm=1''" "JNum 7"
      "''https://example.org/in/bob''"]
  by (simp add: upgrade_scheme_def strip_trailing_slashes_def strip_query_def)

text \<open>
  C10, as the code has it. The test for \<open>linkedin.com\<close> reads the raw string, query
  string included, and the query string is then cut off: a result need not contain
  \<open>linkedin.com\<close> any more, and normalizing it again rejects it. Normalizing a result
  again returns it unchanged exactly when it still contains \<open>linkedin.com\<close>, and
  rejects it otherwise; it never returns a different string.
\<close>

theorem normalize_twice:
  "normalizeLinkedInUrl u = Some v \<Longrightarrow>
   normalizeLinkedInUrl (JStr v) = (if js_includes v ''linkedin.com'' then Some v else None)"
proof -
  assume a: "normalizeLinkedInUrl u = Some v"
  then obtain s where u: "u = JStr s"
    by (cases u) (auto simp: normalizeLinkedInUrl_def)
  with a have "v = canonical_spec s"
    by (auto simp: normalize_string split: if_splits)
  then show ?thesis by (simp add: normalize_string canonical_spec_idem)
qed

theorem normalize_twice_witness:
  "normalizeLinkedInUrl (JStr ''http://linkedin.com/in/a/?trk=x'') = Some ''https://linkedin.com/in/a''
   \<and> normalizeLinkedInUrl (JStr ''https://linkedin.com/in/a'') = Some ''https://linkedin.com/in/a''"
proof -
  have h: "normalizeLinkedInUrl (JStr ''http://linkedin.com/in/a/?trk=x'') = Some ''https://linkedin.com/in/a''"
    by (simp add: normalizeLinkedInUrl_def)
  show ?thesis using h normalize_twice[OF h] by simp
qed

theorem normalize_not_idempotent:
  "normalizeLinkedInUrl (JStr ''https://example.org/?ref=linkedin.com'') = Some ''https://example.org''
   \<and> normalizeLinkedInUrl (JStr ''https://example.org'') = None"
  by (simp add: normalizeLinkedInUrl_def)

section \<open>Properties of the extractor\<close>



































lemmas extract_defs =
  extractProfileUrls_def log_sample_def nullish_def sample_raises_def extract_post_def
  post_author_def post_reactions_def post_comments_def post_engagements_def reaction_items_def
  comment_items_def engagement_items_def array_items_def js_or_def extractUrlFromItem_def
  urlFields_def nestedObjects_def add_url_field_def add_nested_def add_identifier_def
  add_normalized_def normalizeLinkedInUrl_def set_add_def then_do_def













section \<open>Properties of the enrichment batcher\<close>

text \<open>The specification's batches.\<close>

lemma spec_chunks_Nil: "spec_chunks w [] = []"
  by (subst spec_chunks.simps) simp

lemma spec_chunks_step:
  "0 < w \<Longrightarrow> xs \<noteq> [] \<Longrightarrow> spec_chunks w xs = take w xs # spec_chunks w (drop w xs)"
  by (subst spec_chunks.simps) simp

lemma ceil_step:
  assumes "0 < w" "0 < n"
  shows "(n + w - 1) div w = Suc ((n - w + w - 1) div w)"
proof -
  have "n + w - 1 = (n - 1) + w" using assms by simp
  moreover have "(n - 1 + w) div w = (n - 1) div w + 1"
    using assms(1) by (intro div_add_self2) simp
  ultimately have "(n + w - 1) div w = Suc ((n - 1) div w)"
    by (simp only: Suc_eq_plus1)
  moreover have "(n - w + w - 1) div w = (n - 1) div w"
  proof (cases "w \<le> n")
    case True
    then show ?thesis by simp
  next
    case False
    then show ?thesis using assms by simp
  qed
  ultimately show ?thesis by simp
qed

lemma concat_spec_chunks: "0 < w \<Longrightarrow> concat (spec_chunks w xs) = xs"
proof (induction w xs rule: spec_chunks.induct)
  case (1 w xs)
  show ?case
  proof (cases "xs = []")
    case True
    then show ?thesis by (simp add: spec_chunks_Nil)
  next
    case False
    then have "concat (spec_chunks w (drop w xs)) = drop w xs" using 1 by simp
    then show ?thesis using False 1(2) by (simp add: spec_chunks_step)
  qed
qed

lemma length_spec_chunks: "0 < w \<Longrightarrow> length (spec_chunks w xs) = (length xs + w - 1) div w"
proof (induction w xs rule: spec_chunks.induct)
  case (1 w xs)
  show ?case
  proof (cases "xs = []")
    case True
    then show ?thesis using 1(2) by (simp add: spec_chunks_Nil)
  next
    case False
    then have "length (spec_chunks w (drop w xs)) = (length (drop w xs) + w - 1) div w"
      using 1 by simp
    then have "length (spec_chunks w xs) = Suc ((length xs - w + w - 1) div w)"
      using False 1(2) by (simp add: spec_chunks_step)
    also have "\<dots> = (length xs + w - 1) div w"
      using False 1(2) by (intro ceil_step[symmetric]) simp_all
    finally show ?thesis .
  qed
qed

lemma spec_chunks_sizes:
  "0 < w \<Longrightarrow> b \<in> set (spec_chunks w xs) \<Longrightarrow> 0 < length b \<and> length b \<le> w"
proof (induction w xs rule: spec_chunks.induct)
  case (1 w xs)
  show ?case
  proof (cases "xs = []")
    case True
    with 1(3) show ?thesis by (simp add: spec_chunks_Nil)
  next
    case False
    with 1(2,3) have "b = take w xs \<or> b \<in> set (spec_chunks w (drop w xs))"
      by (simp add: spec_chunks_step)
    then show ?thesis
    proof
      assume "b = take w xs"
      then show ?thesis using False 1(2) by simp
    next
      assume "b \<in> set (spec_chunks w (drop w xs))"
      then show ?thesis using 1(1) False 1(2) by simp
    qed
  qed
qed

lemma spec_chunks_butlast:
  "0 < w \<Longrightarrow> b \<in> set (butlast (spec_chunks w xs)) \<Longrightarrow> length b = w"
proof (induction w xs rule: spec_chunks.induct)
  case (1 w xs)
  show ?case
  proof (cases "xs = []")
    case True
    with 1(3) show ?thesis by (simp add: spec_chunks_Nil)
  next
    case False
    have eq: "spec_chunks w xs = take w xs # spec_chunks w (drop w xs)"
      using False 1(2) by (simp add: spec_chunks_step)
    show ?thesis
    proof (cases "drop w xs = []")
      case True
      with 1(3) eq show ?thesis by (simp add: spec_chunks_Nil)
    next
      case ne: False
      then have nonempty: "spec_chunks w (drop w xs) \<noteq> []"
        using 1(2) by (simp add: spec_chunks_step)
      from ne have full: "length (take w xs) = w" by simp
      from 1(3) eq nonempty
      have "b = take w xs \<or> b \<in> set (butlast (spec_chunks w (drop w xs)))"
        by simp
      then show ?thesis
      proof
        assume "b = take w xs"
        with full show ?thesis by simp
      next
        assume "b \<in> set (butlast (spec_chunks w (drop w xs)))"
        then show ?thesis using 1(1) False 1(2) by simp
      qed
    qed
  qed
qed

text \<open>The per-URL call under rate limiting.\<close>

lemma enrichProfile_429:
  "apollo url k = HttpFailure 429 \<Longrightarrow>
   enrichProfile apollo url k tr
     = enrichProfile apollo url (Suc k) (tr @ [ApolloMatch url, RetrySleep 5000])"
  by (subst enrichProfile.simps) simp

lemma enrichProfile_answer:
  "apollo url k \<noteq> HttpFailure 429 \<Longrightarrow>
   enrichProfile apollo url k tr = Some (answer_result url (apollo url k), tr @ [ApolloMatch url])"
  by (subst enrichProfile.simps) (simp add: answer_result_def split: http_result.splits)

lemma enrichProfile_from:
  "(\<And>j. j < n \<Longrightarrow> apollo url (k + j) = HttpFailure 429) \<Longrightarrow>
   apollo url (k + n) \<noteq> HttpFailure 429 \<Longrightarrow>
   enrichProfile apollo url k tr
     = Some (answer_result url (apollo url (k + n)), tr @ retry_trace url n)"
proof (induction n arbitrary: k tr)
  case 0
  then show ?case by (simp add: enrichProfile_answer retry_trace_def)
next
  case (Suc n)
  have "apollo url k = HttpFailure 429" using Suc.prems(1)[of 0] by simp
  moreover have "enrichProfile apollo url (Suc k) (tr @ [ApolloMatch url, RetrySleep 5000])
     = Some (answer_result url (apollo url (Suc k + n)),
             (tr @ [ApolloMatch url, RetrySleep 5000]) @ retry_trace url n)"
  proof (rule Suc.IH)
    fix j assume "j < n"
    then show "apollo url (Suc k + j) = HttpFailure 429" using Suc.prems(1)[of "Suc j"] by simp
  next
    show "apollo url (Suc k + n) \<noteq> HttpFailure 429" using Suc.prems(2) by simp
  qed
  ultimately show ?case by (simp add: enrichProfile_429 retry_trace_def)
qed

lemma enrichProfile_settles:
  assumes "settles apollo url n"
  shows "enrichProfile apollo url 0 tr
         = Some (answer_result url (apollo url n), tr @ retry_trace url n)"
  using assms enrichProfile_from[of n apollo url 0 tr]
  by (simp add: settles_def list_all_iff)

text \<open>A batch of settling calls, and the chunks the source's loop builds.\<close>

lemma those_map_Some:
  "(\<And>x. x \<in> set xs \<Longrightarrow> f x = Some (g x)) \<Longrightarrow> those (map f xs) = Some (map g xs)"
  by (induction xs) simp_all

lemma enrich_batch_settles:
  assumes "\<And>u. u \<in> set b \<Longrightarrow> settles apollo u (n u)"
  shows "enrich_batch apollo b
         = Some (map (\<lambda>u. answer_result u (apollo u (n u))) b,
                 concat (transpose (map (\<lambda>u. retry_trace u (n u)) b)))"
proof -
  have "those (map (\<lambda>url. enrichProfile apollo url 0 []) b)
        = Some (map (\<lambda>u. (answer_result u (apollo u (n u)), retry_trace u (n u))) b)"
  proof (rule those_map_Some)
    fix x assume "x \<in> set b"
    then have "settles apollo x (n x)" by (rule assms)
    then show "enrichProfile apollo x 0 []
          = Some (answer_result x (apollo x (n x)), retry_trace x (n x))"
      using enrichProfile_settles[of apollo x "n x" "[]"] by simp
  qed
  then show ?thesis by (simp add: enrich_batch_def comp_def)
qed

lemma retry_trace_Cons: "retry_trace url n = ApolloMatch url # retry_tail url n"
  by (induction n) (simp_all add: retry_trace_def retry_tail_def)

lemma heads_of_map:
  "concat (map (\<lambda>ys. case ys of [] \<Rightarrow> [] | h # t \<Rightarrow> [h]) (map (\<lambda>u. x u # xs u) b)) = map x b"
  by (induction b) simp_all

lemma tails_of_map:
  "concat (map (\<lambda>ys. case ys of [] \<Rightarrow> [] | h # t \<Rightarrow> [t]) (map (\<lambda>u. x u # xs u) b)) = map xs b"
  by (induction b) simp_all

lemma transpose_map_Cons:
  "b \<noteq> [] \<Longrightarrow> transpose (map (\<lambda>u. x u # xs u) b) = map x b # transpose (map xs b)"
proof (cases b)
  case Nil
  assume "b \<noteq> []"
  with Nil show ?thesis by simp
next
  case (Cons a rest)
  have "transpose ((x a # xs a) # map (\<lambda>u. x u # xs u) rest)
        = (x a # map x rest) # transpose (xs a # map xs rest)"
    unfolding transpose.simps heads_of_map tails_of_map ..
  with Cons show ?thesis by simp
qed

lemma batch_steps:
  "concat (transpose (map (\<lambda>u. retry_trace u (n u)) b))
   = map ApolloMatch b @ concat (transpose (map (\<lambda>u. retry_tail u (n u)) b))"
proof (cases "b = []")
  case True
  then show ?thesis by simp
next
  case False
  then show ?thesis
    using transpose_map_Cons[of b "\<lambda>u. ApolloMatch u" "\<lambda>u. retry_tail u (n u)"]
    by (simp add: retry_trace_Cons)
qed

lemma set_concat_transpose: "set (concat (transpose xss)) \<subseteq> set (concat xss)"
proof
  fix x assume "x \<in> set (concat (transpose xss))"
  then obtain row where "row \<in> set (transpose xss)" "x \<in> set row" by auto
  then obtain i where i: "i < length (transpose xss)" and x: "x \<in> set (transpose xss ! i)"
    by (metis in_set_conv_nth)
  from x have "x \<in> set (map (\<lambda>xs. xs ! i) (filter (\<lambda>ys. i < length ys) xss))"
    using nth_transpose[OF i] by simp
  then obtain xs where "xs \<in> set xss" "i < length xs" "x = xs ! i" by auto
  then have "xs \<in> set xss" "x \<in> set xs" by simp_all
  then show "x \<in> set (concat xss)" by auto
qed

lemma retry_tail_events:
  "e \<in> set (retry_tail url n) \<Longrightarrow> e = RetrySleep 5000 \<or> e = ApolloMatch url"
  by (induction n) (auto simp: retry_tail_def)

lemma wave_tail_events:
  assumes "e \<in> set (map ApolloMatch b @ concat (transpose (map (\<lambda>u. retry_tail u (n u)) b)))"
  shows "\<not> is_schedule_event e"
proof -
  from assms consider "e \<in> set (map ApolloMatch b)"
    | "e \<in> set (concat (map (\<lambda>u. retry_tail u (n u)) b))"
    using set_concat_transpose[of "map (\<lambda>u. retry_tail u (n u)) b"] by auto
  then show ?thesis
  proof cases
    case 1
    then show ?thesis by auto
  next
    case 2
    then obtain u where "e \<in> set (retry_tail u (n u))" by auto
    then show ?thesis using retry_tail_events by fastforce
  qed
qed

lemma schedule_wave_steps: "schedule (wave_steps n b) = [Wave b]"
proof -
  have "filter is_schedule_event
          (map ApolloMatch b @ concat (transpose (map (\<lambda>u. retry_tail u (n u)) b))) = []"
    unfolding filter_empty_conv using wave_tail_events by blast
  then show ?thesis by (simp add: wave_steps_def schedule_def)
qed

lemma schedule_append: "schedule (xs @ ys) = schedule xs @ schedule ys"
  by (simp add: schedule_def)

lemma schedule_run_steps: "schedule (run_steps n d bs) = pace d bs"
  by (induction n d bs rule: run_steps.induct)
    (simp_all add: schedule_append schedule_wave_steps, simp_all add: schedule_def)

lemma map_snd_number_from: "map snd (number_from i xs) = xs"
  by (induction xs arbitrary: i) auto

lemma map_fst_number_from: "map fst (number_from i xs) = [i..<i + length xs]"
  by (induction xs arbitrary: i) (auto simp: upt_rec)

lemma length_number_from: "length (number_from i xs) = length xs"
  by (induction xs arbitrary: i) auto

lemma number_from_append:
  "number_from i (xs @ ys) = number_from i xs @ number_from (i + length xs) ys"
  by (induction xs arbitrary: i) auto

lemma chunk_loop_eq:
  "0 < sz \<Longrightarrow>
   chunk_loop array sz i chunks
     = Some (chunks @ number_from (length chunks) (spec_chunks sz (drop i array)))"
proof (induction "length array - i" arbitrary: i chunks rule: less_induct)
  case less
  show ?case
  proof (cases "i < length array")
    case False
    then have "chunk_loop array sz i chunks = Some chunks"
      by (subst chunk_loop.simps) simp
    then show ?thesis using False by (simp add: spec_chunks_Nil)
  next
    case True
    let ?c = "(length chunks, take sz (drop i array))"
    have "length array - (i + sz) < length array - i" using True less.prems by simp
    then have "chunk_loop array sz (i + sz) (chunks @ [?c])
          = Some ((chunks @ [?c])
               @ number_from (length (chunks @ [?c])) (spec_chunks sz (drop (i + sz) array)))"
      using less.prems by (rule less.hyps)
    moreover have "spec_chunks sz (drop i array)
          = take sz (drop i array) # spec_chunks sz (drop (i + sz) array)"
      using True less.prems by (simp add: spec_chunks_step add.commute)
    moreover have "chunk_loop array sz i chunks = chunk_loop array sz (i + sz) (chunks @ [?c])"
      using True by (subst chunk_loop.simps) simp
    ultimately show ?thesis by simp
  qed
qed

lemma chunkArray_eq:
  "0 < sz \<Longrightarrow> chunkArray array sz = Some (number_from 0 (spec_chunks sz array))"
  by (simp add: chunkArray_def chunk_loop_eq)

text \<open>The loop over the batches: a pause after every batch but the last.\<close>

lemma index_of_distinct:
  "distinct (map fst (pre @ b # post)) \<Longrightarrow> index_of (pre @ b # post) b = int (length pre)"
proof (induction pre)
  case Nil
  then show ?case by simp
next
  case (Cons c pre)
  then have "fst c \<noteq> fst b" by auto
  moreover have "index_of (pre @ b # post) b = int (length pre)" using Cons by simp
  ultimately show ?case by (simp add: Let_def)
qed

lemma pace_Cons:
  "pace d (b # bs) = Wave b # (if bs = [] then [] else BatchSleep d # pace d bs)"
  by (cases bs) simp_all

lemma waves_schedule: "waves (schedule tr) = waves tr"
  unfolding schedule_def by (induction tr rule: waves.induct) simp_all

lemma batch_sleeps_schedule: "filter is_batch_sleep (schedule tr) = filter is_batch_sleep tr"
  unfolding schedule_def by (induction tr rule: waves.induct) simp_all

lemma waves_pace: "waves (pace d bs) = bs"
  by (induction d bs rule: pace.induct) simp_all

lemma batch_sleeps_pace: "length (filter is_batch_sleep (pace d bs)) = length bs - 1"
  by (induction d bs rule: pace.induct) simp_all

lemma pace_Nil_iff: "pace d bs = [] \<longleftrightarrow> bs = []"
  by (induction d bs rule: pace.induct) simp_all

lemma pace_last: "bs \<noteq> [] \<Longrightarrow> last (pace d bs) = Wave (last bs)"
  by (induction d bs rule: pace.induct) (simp_all add: pace_Nil_iff)

lemma waves_append: "waves (xs @ ys) = waves xs @ waves ys"
  by (induction xs rule: waves.induct) simp_all

lemma waves_no_schedule: "(\<And>e. e \<in> set tr \<Longrightarrow> \<not> is_schedule_event e) \<Longrightarrow> waves tr = []"
proof (induction tr rule: waves.induct)
  case (2 b tr)
  from 2(2)[of "Wave b"] show ?case by simp
qed simp_all

lemma waves_wave_steps: "waves (wave_steps n b) = [b]"
  using waves_no_schedule[of "map ApolloMatch b @ concat (transpose (map (\<lambda>u. retry_tail u (n u)) b))"]
    wave_tail_events[of _ b n]
  by (simp add: wave_steps_def)

lemma waves_run_steps: "waves (run_steps n d bs) = bs"
  by (induction n d bs rule: run_steps.induct) (simp_all add: waves_append waves_wave_steps)

lemma map_filter_id_map: "List.map_filter id (map g xs) = List.map_filter g xs"
  by (simp add: List.map_filter_def filter_map comp_def)

lemma map_filter_append: "List.map_filter g (xs @ ys) = List.map_filter g xs @ List.map_filter g ys"
  by (simp add: List.map_filter_def)

lemma run_steps_Cons:
  "run_steps n d (b # bs) = wave_steps n b @ (if bs = [] then [] else BatchSleep d # run_steps n d bs)"
  by (cases bs) simp_all

lemma enrich_loop_steps:
  assumes "\<And>u. u \<in> set (concat (map snd rest)) \<Longrightarrow> settles apollo u (n u)"
    and "batches = pre @ rest" and "distinct (map fst batches)"
  shows "enrich_loop apollo batches d rest enrichedContacts tr
         = Some (enrichedContacts
                   @ List.map_filter (\<lambda>u. answer_result u (apollo u (n u))) (concat (map snd rest)),
                 tr @ run_steps n d (map snd rest))"
  using assms
proof (induction rest arbitrary: pre enrichedContacts tr)
  case Nil
  then show ?case by (simp add: List.map_filter_def)
next
  case (Cons batch rest)
  let ?g = "\<lambda>u. answer_result u (apollo u (n u))"
  have b: "enrich_batch apollo (snd batch)
           = Some (map ?g (snd batch),
                   concat (transpose (map (\<lambda>u. retry_trace u (n u)) (snd batch))))"
    by (rule enrich_batch_settles) (simp add: Cons.prems(1))
  have idx: "index_of batches batch = int (length pre)"
    using Cons.prems(2,3) index_of_distinct[of pre batch rest] by simp
  have len: "length batches = length pre + Suc (length rest)"
    using Cons.prems(2) by simp
  have cond: "(index_of batches batch < int (length batches) - 1) = (rest \<noteq> [])"
    using idx len by auto
  let ?tr2 = "tr @ [Wave (snd batch)]
              @ concat (transpose (map (\<lambda>u. retry_trace u (n u)) (snd batch)))
              @ (if rest \<noteq> [] then [BatchSleep d] else [])"
  have ih: "enrich_loop apollo batches d rest
              (enrichedContacts @ List.map_filter id (map ?g (snd batch))) ?tr2
            = Some ((enrichedContacts @ List.map_filter id (map ?g (snd batch)))
                      @ List.map_filter ?g (concat (map snd rest)),
                    ?tr2 @ run_steps n d (map snd rest))"
  proof (rule Cons.IH)
    show "batches = (pre @ [batch]) @ rest" using Cons.prems(2) by simp
    show "distinct (map fst batches)" by (rule Cons.prems(3))
    show "\<And>u. u \<in> set (concat (map snd rest)) \<Longrightarrow> settles apollo u (n u)"
      using Cons.prems(1) by simp
  qed
  have w: "[Wave (snd batch)] @ concat (transpose (map (\<lambda>u. retry_trace u (n u)) (snd batch)))
           = wave_steps n (snd batch)"
    by (simp add: wave_steps_def batch_steps)
  have "?tr2 @ run_steps n d (map snd rest) = tr @ run_steps n d (map snd (batch # rest))"
    using w by (cases rest) (simp_all add: run_steps_Cons)
  moreover have "(enrichedContacts @ List.map_filter id (map ?g (snd batch)))
                      @ List.map_filter ?g (concat (map snd rest))
                 = enrichedContacts @ List.map_filter ?g (concat (map snd (batch # rest)))"
    by (simp add: map_filter_id_map map_filter_append)
  ultimately show ?case using b ih cond by simp
qed

lemma wave_dispatch_sublist:
  "b \<in> set bs \<Longrightarrow> sublist (Wave b # map ApolloMatch b) (run_steps n d bs)"
proof (induction n d bs rule: run_steps.induct)
  case (1 n d)
  then show ?case by simp
next
  case (2 n d c)
  then have "b = c" by simp
  have "sublist (Wave c # map ApolloMatch c)
          ([] @ (Wave c # map ApolloMatch c)
             @ concat (transpose (map (\<lambda>url. retry_tail url (n url)) c)))"
    by (rule sublist_appendI)
  then show ?case using \<open>b = c\<close> by (simp add: wave_steps_def)
next
  case (3 n d c e bs)
  show ?case
  proof (cases "b = c")
    case True
    have "sublist (Wave c # map ApolloMatch c)
            ([] @ (Wave c # map ApolloMatch c)
               @ (concat (transpose (map (\<lambda>url. retry_tail url (n url)) c))
                    @ BatchSleep d # run_steps n d (e # bs)))"
      by (rule sublist_appendI)
    then show ?thesis using True by (simp add: wave_steps_def)
  next
    case False
    with 3 have "sublist (Wave b # map ApolloMatch b) (run_steps n d (e # bs))" by simp
    then have "sublist (Wave b # map ApolloMatch b)
                 ((wave_steps n c @ [BatchSleep d]) @ run_steps n d (e # bs))"
      unfolding sublist_append by blast
    then show ?thesis by simp
  qed
qed

lemma spec_chunks_12_5:
  assumes "length xs = 12"
  shows "map length (spec_chunks 5 xs) = [5, 5, 2]"
proof -
  have 1: "xs \<noteq> []" using assms by auto
  have 2: "drop 5 xs \<noteq> []" using assms by auto
  have 3: "drop 5 (drop 5 xs) \<noteq> []" using assms by auto
  have 4: "drop 5 (drop 5 (drop 5 xs)) = []" using assms by auto
  have "spec_chunks 5 xs = [take 5 xs, take 5 (drop 5 xs), take 5 (drop 5 (drop 5 xs))]"
    using spec_chunks_step[of 5 xs] spec_chunks_step[of 5 "drop 5 xs"]
      spec_chunks_step[of 5 "drop 5 (drop 5 xs)"] 1 2 3 4
    by (simp add: spec_chunks_Nil)
  then show ?thesis using assms by simp
qed

text \<open>
  C4. For a batch width \<open>w > 0\<close> and per-URL calls that settle (the call for \<open>u\<close> after
  \<open>n u\<close> retries), \<open>enrichProfiles\<close> returns the contacts of the calls that gave one, in
  the order of the input. Its dispatch waves are consecutive pieces of the input: their
  concatenation is the input, there are \<open>ceil(n/w)\<close> of them, every wave but the last has
  exactly \<open>w\<close> URLs and the last has between 1 and \<open>w\<close>. Each wave sends one request for
  each of its URLs, in order, before anything else happens, and then only the retries of
  its rate-limited calls. The pause between batches is made exactly between two
  consecutive waves, \<open>ceil(n/w) - 1\<close> times, and never after the last wave. Twelve URLs
  at width 5 give waves of 5, 5 and 2 URLs and two pauses.
\<close>

theorem enrichProfiles_batching:
  assumes "0 < w" and "\<forall>u\<in>set urls. settles apollo u (n u)"
  shows "\<exists>contacts tr. enrichProfiles apollo urls w d = Some (contacts, tr)
      \<and> contacts = List.map_filter (\<lambda>u. answer_result u (apollo u (n u))) urls
      \<and> tr = run_steps n d (waves tr)
      \<and> (\<forall>b\<in>set (waves tr). sublist (Wave b # map ApolloMatch b) tr)
      \<and> concat (waves tr) = urls
      \<and> length (waves tr) = (length urls + w - 1) div w
      \<and> (\<forall>b\<in>set (butlast (waves tr)). length b = w)
      \<and> (\<forall>b\<in>set (waves tr). 0 < length b \<and> length b \<le> w)
      \<and> schedule tr = pace d (waves tr)
      \<and> length (filter is_batch_sleep tr) = (length urls + w - 1) div w - 1
      \<and> (length urls = 12 \<and> w = 5 \<longrightarrow>
           map length (waves tr) = [5, 5, 2] \<and> length (filter is_batch_sleep tr) = 2)"
proof -
  let ?bs = "spec_chunks w urls"
  let ?batches = "number_from 0 ?bs"
  let ?contacts = "List.map_filter (\<lambda>u. answer_result u (apollo u (n u))) urls"
  let ?tr = "run_steps n d ?bs"
  have cc: "concat ?bs = urls" using assms(1) by (rule concat_spec_chunks)
  have c: "chunkArray urls w = Some ?batches" using assms(1) by (rule chunkArray_eq)
  have "enrich_loop apollo ?batches d ?batches [] []
        = Some ([] @ List.map_filter (\<lambda>u. answer_result u (apollo u (n u)))
                       (concat (map snd ?batches)),
                [] @ run_steps n d (map snd ?batches))"
  proof (rule enrich_loop_steps)
    show "?batches = [] @ ?batches" by simp
    show "distinct (map fst ?batches)" by (simp add: map_fst_number_from)
    fix u assume "u \<in> set (concat (map snd ?batches))"
    then have "u \<in> set urls" by (simp only: map_snd_number_from cc)
    then show "settles apollo u (n u)" using assms(2) by blast
  qed
  then have l: "enrich_loop apollo ?batches d ?batches [] [] = Some (?contacts, ?tr)"
    by (simp only: map_snd_number_from cc append_Nil)
  have e: "enrichProfiles apollo urls w d = Some (?contacts, ?tr)"
    using c l by (simp add: enrichProfiles_def)
  have wv: "waves ?tr = ?bs" by (rule waves_run_steps)
  have s: "schedule ?tr = pace d ?bs" by (rule schedule_run_steps)
  have n: "length (filter is_batch_sleep ?tr) = length ?bs - 1"
    using batch_sleeps_schedule[of ?tr, symmetric] batch_sleeps_pace[of d ?bs] s by simp
  have len: "length ?bs = (length urls + w - 1) div w"
    using assms(1) by (rule length_spec_chunks)
  have d: "\<forall>b\<in>set ?bs. sublist (Wave b # map ApolloMatch b) ?tr"
    using wave_dispatch_sublist by blast
  have bl: "\<forall>b\<in>set (butlast ?bs). length b = w"
    using assms(1) spec_chunks_butlast by blast
  have sz: "\<forall>b\<in>set ?bs. 0 < length b \<and> length b \<le> w"
    using assms(1) spec_chunks_sizes by blast
  have tw: "length urls = 12 \<and> w = 5 \<longrightarrow>
           map length ?bs = [5, 5, 2] \<and> length ?bs - 1 = 2"
    using spec_chunks_12_5[of urls] len by auto
  show ?thesis
  proof (intro exI[of _ ?contacts] exI[of _ ?tr] conjI)
    show "enrichProfiles apollo urls w d = Some (?contacts, ?tr)" by (rule e)
    show "?contacts = ?contacts" ..
    show "?tr = run_steps n d (waves ?tr)" by (simp only: wv)
    show "\<forall>b\<in>set (waves ?tr). sublist (Wave b # map ApolloMatch b) ?tr"
      using d by (simp only: wv)
    show "concat (waves ?tr) = urls" by (simp only: wv cc)
    show "length (waves ?tr) = (length urls + w - 1) div w" by (simp only: wv len)
    show "\<forall>b\<in>set (butlast (waves ?tr)). length b = w" using bl by (simp only: wv)
    show "\<forall>b\<in>set (waves ?tr). 0 < length b \<and> length b \<le> w" using sz by (simp only: wv)
    show "schedule ?tr = pace d (waves ?tr)" by (simp only: wv s)
    show "length (filter is_batch_sleep ?tr) = (length urls + w - 1) div w - 1"
      using n len by simp
    show "length urls = 12 \<and> w = 5 \<longrightarrow>
           map length (waves ?tr) = [5, 5, 2] \<and> length (filter is_batch_sleep ?tr) = 2"
      using tw n by (simp only: wv)
  qed
qed

lemma enrich_example:
  "enrichProfiles (\<lambda>u k. if (u = ''u02'' \<or> u = ''u04'') \<and> k = 0 then HttpFailure 429 else NoResponse)
     [''u01'', ''u02'', ''u03'', ''u04'', ''u05'', ''u06'', ''u07'', ''u08'', ''u09'', ''u10'',
      ''u11'', ''u12''] 5 1000
   = Some ([],
       [Wave [''u01'', ''u02'', ''u03'', ''u04'', ''u05''],
        ApolloMatch ''u01'', ApolloMatch ''u02'', ApolloMatch ''u03'', ApolloMatch ''u04'',
        ApolloMatch ''u05'',
        RetrySleep 5000, RetrySleep 5000,
        ApolloMatch ''u02'', ApolloMatch ''u04'',
        BatchSleep 1000,
        Wave [''u06'', ''u07'', ''u08'', ''u09'', ''u10''],
        ApolloMatch ''u06'', ApolloMatch ''u07'', ApolloMatch ''u08'', ApolloMatch ''u09'',
        ApolloMatch ''u10'',
        BatchSleep 1000,
        Wave [''u11'', ''u12''],
        ApolloMatch ''u11'', ApolloMatch ''u12''])"
  by (simp add: enrichProfiles_def chunkArray_def chunk_loop.simps enrich_batch_def
      enrichProfile.simps List.map_filter_def)

lemma example_settles:
  "settles (\<lambda>u k. if (u = ''u02'' \<or> u = ''u04'') \<and> k = 0 then HttpFailure 429 else NoResponse) u
     ((\<lambda>u. if u = ''u02'' \<or> u = ''u04'' then 1 else 0) u)"
  by (simp add: settles_def)

theorem enrichProfiles_batching_witness:
  "(0::nat) < 5
   \<and> list_all (\<lambda>u. settles (\<lambda>u k. if (u = ''u02'' \<or> u = ''u04'') \<and> k = 0 then HttpFailure 429
                                   else NoResponse) u
                      ((\<lambda>u. if u = ''u02'' \<or> u = ''u04'' then 1 else 0) u))
        [''u01'', ''u02'', ''u03'', ''u04'', ''u05'', ''u06'', ''u07'', ''u08'', ''u09'',
         ''u10'', ''u11'', ''u12'']
   \<and> (\<exists>contacts tr.
        enrichProfiles (\<lambda>u k. if (u = ''u02'' \<or> u = ''u04'') \<and> k = 0 then HttpFailure 429
                               else NoResponse)
          [''u01'', ''u02'', ''u03'', ''u04'', ''u05'', ''u06'', ''u07'', ''u08'', ''u09'', ''u10'',
           ''u11'', ''u12''] 5 1000 = Some (contacts, tr)
        \<and> tr = [Wave [''u01'', ''u02'', ''u03'', ''u04'', ''u05''],
                 ApolloMatch ''u01'', ApolloMatch ''u02'', ApolloMatch ''u03'',
                 ApolloMatch ''u04'', ApolloMatch ''u05'',
                 RetrySleep 5000, RetrySleep 5000,
                 ApolloMatch ''u02'', ApolloMatch ''u04'',
                 BatchSleep 1000,
                 Wave [''u06'', ''u07'', ''u08'', ''u09'', ''u10''],
                 ApolloMatch ''u06'', ApolloMatch ''u07'', ApolloMatch ''u08'',
                 ApolloMatch ''u09'', ApolloMatch ''u10'',
                 BatchSleep 1000,
                 Wave [''u11'', ''u12''],
                 ApolloMatch ''u11'', ApolloMatch ''u12'']
        \<and> waves tr = [[''u01'', ''u02'', ''u03'', ''u04'', ''u05''],
                       [''u06'', ''u07'', ''u08'', ''u09'', ''u10''],
                       [''u11'', ''u12'']]
        \<and> map length (waves tr) = [5, 5, 2]
        \<and> length (filter is_batch_sleep tr) = 2)"
proof -
  let ?apollo = "\<lambda>u k. if (u = ''u02'' \<or> u = ''u04'') \<and> k = 0 then HttpFailure 429 else NoResponse"
  let ?n = "\<lambda>u. if u = ''u02'' \<or> u = ''u04'' then 1 else (0::nat)"
  let ?urls = "[''u01'', ''u02'', ''u03'', ''u04'', ''u05'', ''u06'', ''u07'', ''u08'', ''u09'',
                ''u10'', ''u11'', ''u12'']"
  let ?tr = "[Wave [''u01'', ''u02'', ''u03'', ''u04'', ''u05''],
                 ApolloMatch ''u01'', ApolloMatch ''u02'', ApolloMatch ''u03'',
                 ApolloMatch ''u04'', ApolloMatch ''u05'',
                 RetrySleep 5000, RetrySleep 5000,
                 ApolloMatch ''u02'', ApolloMatch ''u04'',
                 BatchSleep 1000,
                 Wave [''u06'', ''u07'', ''u08'', ''u09'', ''u10''],
                 ApolloMatch ''u06'', ApolloMatch ''u07'', ApolloMatch ''u08'',
                 ApolloMatch ''u09'', ApolloMatch ''u10'',
                 BatchSleep 1000,
                 Wave [''u11'', ''u12''],
                 ApolloMatch ''u11'', ApolloMatch ''u12'']"
  have h1: "(0::nat) < 5" by simp
  have h2: "\<forall>u\<in>set ?urls. settles ?apollo u (?n u)"
    using example_settles by blast
  from enrichProfiles_batching[OF h1 h2, of 1000]
  obtain contacts tr where
    e: "enrichProfiles ?apollo ?urls 5 1000 = Some (contacts, tr)"
    and m: "map length (waves tr) = [5, 5, 2]" "length (filter is_batch_sleep tr) = 2"
    by auto
  from e have t: "tr = ?tr" unfolding enrich_example by simp
  then have w: "waves tr = [[''u01'', ''u02'', ''u03'', ''u04'', ''u05''],
                       [''u06'', ''u07'', ''u08'', ''u09'', ''u10''],
                       [''u11'', ''u12'']]"
    by simp
  have ex: "\<exists>contacts tr.
        enrichProfiles ?apollo ?urls 5 1000 = Some (contacts, tr)
        \<and> tr = ?tr
        \<and> waves tr = [[''u01'', ''u02'', ''u03'', ''u04'', ''u05''],
                       [''u06'', ''u07'', ''u08'', ''u09'', ''u10''],
                       [''u11'', ''u12'']]
        \<and> map length (waves tr) = [5, 5, 2]
        \<and> length (filter is_batch_sleep tr) = 2"
    by (intro exI[of _ contacts] exI[of _ tr] conjI e t w m)
  have h2': "list_all (\<lambda>u. settles ?apollo u (?n u)) ?urls"
    using h2 unfolding list_all_iff .
  show ?thesis by (rule conjI[OF h1 conjI[OF h2' ex]])
qed

text \<open>
  C7. A 429 from the backend makes the per-URL call pause 5000 ms and call itself again
  with the same URL. When the backend answers \<open>n\<close> requests with 429 and the next one
  otherwise, the call returns after exactly \<open>n\<close> such pauses, every request being for
  that URL. Any other failure (another HTTP status, no response, a response without a
  body) makes it return \<open>null\<close>; the call returns a value in every case, so a batch of
  settling calls yields one result per URL, \<open>null\<close> for the calls that failed and the
  answer's outcome for the others.
\<close>

theorem enrichProfile_rate_limit:
  "(apollo url k = HttpFailure 429 \<longrightarrow>
      enrichProfile apollo url k tr
        = enrichProfile apollo url (Suc k) (tr @ [ApolloMatch url, RetrySleep 5000]))
   \<and> (settles apollo url n \<longrightarrow>
        (\<exists>r. enrichProfile apollo url 0 [] = Some (r, retry_trace url n)))
   \<and> (settles apollo url n \<and> (apollo url n = NoResponse \<or> apollo url n = HttpFailure status
          \<or> apollo url n = Response JNull \<or> apollo url n = Response JUndefined) \<longrightarrow>
        enrichProfile apollo url 0 [] = Some (None, retry_trace url n))
   \<and> ((\<forall>u\<in>set urls. \<exists>m. settles apollo u m) \<longrightarrow>
        (\<exists>results steps. enrich_batch apollo urls = Some (results, steps)
           \<and> length results = length urls))
   \<and> ((\<forall>u\<in>set urls. settles apollo u (m u)) \<longrightarrow>
        enrich_batch apollo urls
          = Some (map (\<lambda>u. answer_result u (apollo u (m u))) urls,
                  concat (transpose (map (\<lambda>u. retry_trace u (m u)) urls))))"
proof -
  have a: "apollo url k = HttpFailure 429 \<longrightarrow>
      enrichProfile apollo url k tr
        = enrichProfile apollo url (Suc k) (tr @ [ApolloMatch url, RetrySleep 5000])"
    by (simp add: enrichProfile_429)
  have b: "settles apollo url n \<longrightarrow>
        (\<exists>r. enrichProfile apollo url 0 [] = Some (r, retry_trace url n))"
    using enrichProfile_settles[of apollo url n "[]"] by simp
  have c: "settles apollo url n \<and> (apollo url n = NoResponse \<or> apollo url n = HttpFailure status
          \<or> apollo url n = Response JNull \<or> apollo url n = Response JUndefined) \<longrightarrow>
        enrichProfile apollo url 0 [] = Some (None, retry_trace url n)"
    using enrichProfile_settles[of apollo url n "[]"]
    by (auto simp: answer_result_def enrich_response_def nullish_def)
  have e: "(\<forall>u\<in>set urls. settles apollo u (m u)) \<longrightarrow>
        enrich_batch apollo urls
          = Some (map (\<lambda>u. answer_result u (apollo u (m u))) urls,
                  concat (transpose (map (\<lambda>u. retry_trace u (m u)) urls)))" for m
    using enrich_batch_settles[of urls apollo m] by blast
  have d: "\<exists>results steps. enrich_batch apollo urls = Some (results, steps)
           \<and> length results = length urls"
    if "\<forall>u\<in>set urls. \<exists>m. settles apollo u m"
  proof -
    from that obtain f where "\<forall>u\<in>set urls. settles apollo u (f u)"
      using bchoice[of "set urls" "\<lambda>u m. settles apollo u m"] by blast
    with e[of f] show ?thesis by simp
  qed
  from a b c d e show ?thesis by blast
qed

theorem enrichProfile_rate_limit_witness:
  "(\<lambda>(u::string) (k::nat).
       if u = ''alice'' then (if k < 2 then HttpFailure 429 else HttpFailure 500)
       else Response (JObj [(''person'', JObj [(''email'', JStr ''bob@example.org'')])]))
     ''alice'' 0 = HttpFailure 429
   \<and> settles (\<lambda>(u::string) (k::nat).
       if u = ''alice'' then (if k < 2 then HttpFailure 429 else HttpFailure 500)
       else Response (JObj [(''person'', JObj [(''email'', JStr ''bob@example.org'')])]))
       ''alice'' 2
   \<and> (\<lambda>(u::string) (k::nat).
       if u = ''alice'' then (if k < 2 then HttpFailure 429 else HttpFailure 500)
       else Response (JObj [(''person'', JObj [(''email'', JStr ''bob@example.org'')])]))
     ''alice'' 2 = HttpFailure 500
   \<and> list_all (\<lambda>u. settles (\<lambda>(u::string) (k::nat).
         if u = ''alice'' then (if k < 2 then HttpFailure 429 else HttpFailure 500)
         else Response (JObj [(''person'', JObj [(''email'', JStr ''bob@example.org'')])]))
         u ((\<lambda>u. if u = ''alice'' then 2 else 0) u))
       [''alice'', ''bob'']
   \<and> enrichProfile (\<lambda>(u::string) (k::nat).
       if u = ''alice'' then (if k < 2 then HttpFailure 429 else HttpFailure 500)
       else Response (JObj [(''person'', JObj [(''email'', JStr ''bob@example.org'')])]))
       ''alice'' 0 []
     = Some (None, [ApolloMatch ''alice'', RetrySleep 5000, ApolloMatch ''alice'',
                    RetrySleep 5000, ApolloMatch ''alice''])
   \<and> enrich_batch (\<lambda>(u::string) (k::nat).
       if u = ''alice'' then (if k < 2 then HttpFailure 429 else HttpFailure 500)
       else Response (JObj [(''person'', JObj [(''email'', JStr ''bob@example.org'')])]))
       [''alice'', ''bob'']
     = Some ([None,
              Some \<lparr> email = JStr ''bob@example.org'', firstName = JStr [], lastName = JStr [],
                     title = JStr [], companyName = JStr [], linkedinUrl = ''bob'',
                     emailStatus = JUndefined \<rparr>],
             [ApolloMatch ''alice'', ApolloMatch ''bob'', RetrySleep 5000, ApolloMatch ''alice'',
              RetrySleep 5000, ApolloMatch ''alice''])"
proof -
  let ?apollo = "\<lambda>(u::string) (k::nat).
       if u = ''alice'' then (if k < 2 then HttpFailure 429 else HttpFailure 500)
       else Response (JObj [(''person'', JObj [(''email'', JStr ''bob@example.org'')])])"
  let ?m = "\<lambda>u. if u = ''alice'' then 2 else (0::nat)"
  have h1: "?apollo ''alice'' 0 = HttpFailure 429" by simp
  have h2: "settles ?apollo ''alice'' 2" by (simp add: settles_def eval_nat_numeral)
  have h3: "?apollo ''alice'' 2 = HttpFailure 500" by simp
  have h4: "\<forall>u\<in>set [''alice'', ''bob'']. settles ?apollo u (?m u)"
    by (simp add: settles_def eval_nat_numeral)
  note t = enrichProfile_rate_limit[where apollo = ?apollo and url = "''alice''" and k = 0
      and tr = "[]" and n = 2 and status = 500 and urls = "[''alice'', ''bob'']" and m = ?m]
  have c1: "enrichProfile ?apollo ''alice'' 0 [] = Some (None, retry_trace ''alice'' 2)"
    using t h2 h3 by blast
  have c2: "enrich_batch ?apollo [''alice'', ''bob'']
          = Some (map (\<lambda>u. answer_result u (?apollo u (?m u))) [''alice'', ''bob''],
                  concat (transpose (map (\<lambda>u. retry_trace u (?m u)) [''alice'', ''bob''])))"
    using t h4 by blast
  have r: "retry_trace ''alice'' 2 = [ApolloMatch ''alice'', RetrySleep 5000, ApolloMatch ''alice'',
          RetrySleep 5000, ApolloMatch ''alice'']"
    by (simp add: retry_trace_def eval_nat_numeral)
  have r0: "retry_trace ''bob'' 0 = [ApolloMatch ''bob'']"
    by (simp add: retry_trace_def)
  have c2': "enrich_batch ?apollo [''alice'', ''bob'']
     = Some ([None,
              Some \<lparr> email = JStr ''bob@example.org'', firstName = JStr [], lastName = JStr [],
                     title = JStr [], companyName = JStr [], linkedinUrl = ''bob'',
                     emailStatus = JUndefined \<rparr>],
             [ApolloMatch ''alice'', ApolloMatch ''bob'', RetrySleep 5000, ApolloMatch ''alice'',
              RetrySleep 5000, ApolloMatch ''alice''])"
    unfolding c2
    by (simp add: r r0 answer_result_def enrich_response_def nullish_def js_or_def opt_get_def)
  have h4': "list_all (\<lambda>u. settles ?apollo u (?m u)) [''alice'', ''bob'']"
    using h4 unfolding list_all_iff .
  show ?thesis
    using h1 h2 h3 h4' c1[unfolded r] c2' by (intro conjI)
qed

text \<open>
  C2. A per-URL call that settles returns a contact exactly when the answer is a response
  containing a person with a non-empty email whose status is neither \<open>guessed\<close> nor
  \<open>unavailable\<close>. A contact that exists carries that email, which is not empty, and a
  status that is neither \<open>guessed\<close> nor \<open>unavailable\<close>. A response with status
  \<open>guessed\<close> gives no contact; one with status \<open>verified\<close> and a non-empty email gives
  one.
\<close>

theorem enrichProfile_verified_only:
  "(settles apollo url n \<longrightarrow>
     (\<exists>r tr. enrichProfile apollo url 0 [] = Some (r, tr)
        \<and> ((\<exists>c. r = Some c) \<longleftrightarrow> (\<exists>data. apollo url n = Response data \<and> has_verified_email data))
        \<and> (\<forall>c. r = Some c \<longrightarrow>
              truthy (email c) \<and> email c \<noteq> JStr [] \<and> emailStatus c \<noteq> JStr ''guessed''
              \<and> emailStatus c \<noteq> JStr ''unavailable'' \<and> linkedinUrl c = url
              \<and> (\<exists>data. apollo url n = Response data
                    \<and> email c = js_get (js_get data ''person'') ''email''))))
   \<and> enrich_response url
        (JObj [(''person'', JObj [(''email'', JStr mail), (''email_status'', JStr ''guessed'')])])
       = None
   \<and> (mail \<noteq> [] \<longrightarrow>
        (\<exists>c. enrich_response url
                (JObj [(''person'', JObj [(''email'', JStr mail), (''email_status'', JStr ''verified'')])])
              = Some c \<and> email c = JStr mail \<and> emailStatus c = JStr ''verified''))"
proof -
  have a: "\<exists>r tr. enrichProfile apollo url 0 [] = Some (r, tr)
        \<and> ((\<exists>c. r = Some c) \<longleftrightarrow> (\<exists>data. apollo url n = Response data \<and> has_verified_email data))
        \<and> (\<forall>c. r = Some c \<longrightarrow>
              truthy (email c) \<and> email c \<noteq> JStr [] \<and> emailStatus c \<noteq> JStr ''guessed''
              \<and> emailStatus c \<noteq> JStr ''unavailable'' \<and> linkedinUrl c = url
              \<and> (\<exists>data. apollo url n = Response data
                    \<and> email c = js_get (js_get data ''person'') ''email''))"
    if s: "settles apollo url n"
  proof -
    let ?r = "answer_result url (apollo url n)"
    have e: "enrichProfile apollo url 0 [] = Some (?r, retry_trace url n)"
      using enrichProfile_settles[OF s, of "[]"] by simp
    have i: "(\<exists>c. ?r = Some c) \<longleftrightarrow> (\<exists>data. apollo url n = Response data \<and> has_verified_email data)"
      by (cases "apollo url n")
        (auto simp: answer_result_def enrich_response_def has_verified_email_def Let_def)
    have p: "truthy (email c) \<and> email c \<noteq> JStr [] \<and> emailStatus c \<noteq> JStr ''guessed''
              \<and> emailStatus c \<noteq> JStr ''unavailable'' \<and> linkedinUrl c = url
              \<and> (\<exists>data. apollo url n = Response data
                    \<and> email c = js_get (js_get data ''person'') ''email'')" if "?r = Some c" for c
      using that
      by (cases "apollo url n")
        (auto simp: answer_result_def enrich_response_def Let_def split: if_splits)
    from e i p show ?thesis by blast
  qed
  have b: "enrich_response url
        (JObj [(''person'', JObj [(''email'', JStr mail), (''email_status'', JStr ''guessed'')])])
       = None"
    by (simp add: enrich_response_def nullish_def)
  have c: "mail \<noteq> [] \<longrightarrow>
        (\<exists>c. enrich_response url
                (JObj [(''person'', JObj [(''email'', JStr mail), (''email_status'', JStr ''verified'')])])
              = Some c \<and> email c = JStr mail \<and> emailStatus c = JStr ''verified'')"
    by (simp add: enrich_response_def nullish_def)
  from a b c show ?thesis by blast
qed

theorem enrichProfile_verified_only_witness:
  "settles (\<lambda>(u::string) (k::nat). Response (JObj [(''person'',
        JObj [(''email'', JStr ''ann@example.org''), (''email_status'', JStr ''verified'')])]))
     ''https://www.linkedin.com/in/ann'' 0
   \<and> ''ann@example.org'' \<noteq> []
   \<and> (\<exists>c tr. enrichProfile (\<lambda>(u::string) (k::nat). Response (JObj [(''person'',
            JObj [(''email'', JStr ''ann@example.org''), (''email_status'', JStr ''verified'')])]))
          ''https://www.linkedin.com/in/ann'' 0 [] = Some (Some c, tr)
        \<and> email c = JStr ''ann@example.org''
        \<and> emailStatus c \<noteq> JStr ''guessed''
        \<and> linkedinUrl c = ''https://www.linkedin.com/in/ann'')"
proof -
  let ?data = "JObj [(''person'',
        JObj [(''email'', JStr ''ann@example.org''), (''email_status'', JStr ''verified'')])]"
  let ?apollo = "\<lambda>(u::string) (k::nat). Response ?data"
  let ?url = "''https://www.linkedin.com/in/ann''"
  have h: "settles ?apollo ?url 0" by (simp add: settles_def)
  have m: "''ann@example.org'' \<noteq> []" by simp
  have v: "has_verified_email ?data" by (simp add: has_verified_email_def nullish_def)
  from enrichProfile_verified_only[where apollo = ?apollo and url = ?url and n = 0] h
  obtain r tr where e: "enrichProfile ?apollo ?url 0 [] = Some (r, tr)"
    and i: "(\<exists>c. r = Some c) \<longleftrightarrow> (\<exists>data. ?apollo ?url 0 = Response data \<and> has_verified_email data)"
    and p: "\<forall>c. r = Some c \<longrightarrow>
              truthy (email c) \<and> email c \<noteq> JStr [] \<and> emailStatus c \<noteq> JStr ''guessed''
              \<and> emailStatus c \<noteq> JStr ''unavailable'' \<and> linkedinUrl c = ?url
              \<and> (\<exists>data. ?apollo ?url 0 = Response data
                    \<and> email c = js_get (js_get data ''person'') ''email'')"
    by blast
  from i v obtain c where c: "r = Some c" by auto
  with p have "emailStatus c \<noteq> JStr ''guessed''" "linkedinUrl c = ?url"
    "email c = JStr ''ann@example.org''" by auto
  with e c have "\<exists>c tr. enrichProfile ?apollo ?url 0 [] = Some (Some c, tr)
        \<and> email c = JStr ''ann@example.org''
        \<and> emailStatus c \<noteq> JStr ''guessed''
        \<and> linkedinUrl c = ?url" by blast
  with h m show ?thesis by (intro conjI)
qed

section \<open>Properties of the delivery submitter\<close>

lemma individual_loop_result:
  "\<exists>outs. individual_loop smartlead k lds a f results tr =
      (\<lparr> added = JNum (a + int (length (filter success outs))),
         failed = JNum (f + int (length (filter (\<lambda>x. \<not> success x) outs))),
         leads = Some (results @ outs), response = None \<rparr>,
       tr @ concat (map (\<lambda>ld. [LeadPost [ld], PaceSleep 200]) lds))
    \<and> length outs = length lds
    \<and> map outcome_email outs = map lead_email lds"
proof (induction lds arbitrary: k a f results tr)
  case Nil
  show ?case by (rule exI[of _ "[]"]) simp
next
  case (Cons ld rest)
  show ?case
  proof (cases "smartlead k [ld]")
    case (Response data)
    let ?o = "\<lparr> success = True, outcome_email = lead_email ld, detail = Response data \<rparr>"
    from Cons[of "Suc k" "a + 1" f "results @ [?o]" "tr @ [LeadPost [ld], PaceSleep 200]"]
    obtain outs where
      "individual_loop smartlead (Suc k) rest (a + 1) f (results @ [?o])
          (tr @ [LeadPost [ld], PaceSleep 200]) =
        (\<lparr> added = JNum (a + 1 + int (length (filter success outs))),
           failed = JNum (f + int (length (filter (\<lambda>x. \<not> success x) outs))),
           leads = Some ((results @ [?o]) @ outs), response = None \<rparr>,
         (tr @ [LeadPost [ld], PaceSleep 200]) @ concat (map (\<lambda>ld. [LeadPost [ld], PaceSleep 200]) rest))"
      "length outs = length rest" "map outcome_email outs = map lead_email rest"
      by blast
    then show ?thesis using Response
      by (intro exI[of _ "?o # outs"]) simp
  next
    case (HttpFailure st)
    let ?o = "\<lparr> success = False, outcome_email = lead_email ld, detail = HttpFailure st \<rparr>"
    from Cons[of "Suc k" a "f + 1" "results @ [?o]" "tr @ [LeadPost [ld], PaceSleep 200]"]
    obtain outs where
      "individual_loop smartlead (Suc k) rest a (f + 1) (results @ [?o])
          (tr @ [LeadPost [ld], PaceSleep 200]) =
        (\<lparr> added = JNum (a + int (length (filter success outs))),
           failed = JNum (f + 1 + int (length (filter (\<lambda>x. \<not> success x) outs))),
           leads = Some ((results @ [?o]) @ outs), response = None \<rparr>,
         (tr @ [LeadPost [ld], PaceSleep 200]) @ concat (map (\<lambda>ld. [LeadPost [ld], PaceSleep 200]) rest))"
      "length outs = length rest" "map outcome_email outs = map lead_email rest"
      by blast
    then show ?thesis using HttpFailure
      by (intro exI[of _ "?o # outs"]) simp
  next
    case NoResponse
    let ?o = "\<lparr> success = False, outcome_email = lead_email ld, detail = NoResponse \<rparr>"
    from Cons[of "Suc k" a "f + 1" "results @ [?o]" "tr @ [LeadPost [ld], PaceSleep 200]"]
    obtain outs where
      "individual_loop smartlead (Suc k) rest a (f + 1) (results @ [?o])
          (tr @ [LeadPost [ld], PaceSleep 200]) =
        (\<lparr> added = JNum (a + int (length (filter success outs))),
           failed = JNum (f + 1 + int (length (filter (\<lambda>x. \<not> success x) outs))),
           leads = Some ((results @ [?o]) @ outs), response = None \<rparr>,
         (tr @ [LeadPost [ld], PaceSleep 200]) @ concat (map (\<lambda>ld. [LeadPost [ld], PaceSleep 200]) rest))"
      "length outs = length rest" "map outcome_email outs = map lead_email rest"
      by blast
    then show ?thesis using NoResponse
      by (intro exI[of _ "?o # outs"]) simp
  qed
qed

lemma lead_posts_append: "lead_posts (xs @ ys) = lead_posts xs @ lead_posts ys"
  by (induction xs rule: lead_posts.induct) simp_all

lemma lead_posts_individual:
  "lead_posts (concat (map (\<lambda>ld. [LeadPost [ld], PaceSleep 200]) lds)) = map (\<lambda>ld. [ld]) lds"
  by (induction lds) simp_all

lemma filter_success_sum:
  "int (length (filter success outs)) + int (length (filter (\<lambda>x. \<not> success x) outs))
   = int (length outs)"
  using sum_length_filter_compl[of success outs] by simp

lemma addLeads_raises:
  "contacts \<noteq> [] \<Longrightarrow> bulk_raises (smartlead 0 (map formatLead contacts)) \<Longrightarrow>
   addLeads smartlead contacts
     = addLeadsIndividually smartlead 1 (map formatLead contacts)
         [LeadPost (map formatLead contacts)]"
  by (cases "smartlead 0 (map formatLead contacts)") (simp_all add: addLeads_def Let_def)

text \<open>
  C5. For a non-empty contact list whose bulk submission raises, \<open>addLeads\<close> returns a
  result (every exception is caught): after the bulk request it posts each contact's lead
  on its own, once and in order, and returns numbers \<open>added\<close> and \<open>failed\<close> whose sum is
  the number of contacts, with one success/failure outcome per contact.
\<close>

theorem addLeads_fallback:
  "contacts \<noteq> [] \<Longrightarrow> bulk_raises (smartlead 0 (map formatLead contacts)) \<Longrightarrow>
   \<exists>a f outs tr.
     addLeads smartlead contacts
       = (\<lparr> added = JNum a, failed = JNum f, leads = Some outs, response = None \<rparr>, tr)
     \<and> a + f = int (length contacts)
     \<and> a = int (length (filter success outs))
     \<and> f = int (length (filter (\<lambda>x. \<not> success x) outs))
     \<and> length outs = length contacts
     \<and> map outcome_email outs = map email contacts
     \<and> lead_posts tr = map formatLead contacts # map (\<lambda>c. [formatLead c]) contacts"
proof -
  assume ne: "contacts \<noteq> []" and r: "bulk_raises (smartlead 0 (map formatLead contacts))"
  let ?lds = "map formatLead contacts"
  from individual_loop_result[of smartlead 1 ?lds 0 0 "[]" "[LeadPost ?lds]"]
  obtain outs where
    l: "individual_loop smartlead 1 ?lds 0 0 [] [LeadPost ?lds] =
      (\<lparr> added = JNum (int (length (filter success outs))),
         failed = JNum (int (length (filter (\<lambda>x. \<not> success x) outs))),
         leads = Some outs, response = None \<rparr>,
       [LeadPost ?lds] @ concat (map (\<lambda>ld. [LeadPost [ld], PaceSleep 200]) ?lds))"
    and n: "length outs = length ?lds"
    and m: "map outcome_email outs = map lead_email ?lds"
    by auto
  let ?a = "int (length (filter success outs))"
  let ?f = "int (length (filter (\<lambda>x. \<not> success x) outs))"
  let ?tr = "[LeadPost ?lds] @ concat (map (\<lambda>ld. [LeadPost [ld], PaceSleep 200]) ?lds)"
  have 1: "addLeads smartlead contacts
       = (\<lparr> added = JNum ?a, failed = JNum ?f, leads = Some outs, response = None \<rparr>, ?tr)"
    using addLeads_raises[of contacts smartlead] ne r l by (simp add: addLeadsIndividually_def)
  have 2: "?a + ?f = int (length contacts)"
    using filter_success_sum[of outs] n by simp
  have 3: "length outs = length contacts" using n by simp
  have 4: "map outcome_email outs = map email contacts"
    using m by (simp add: formatLead_def)
  have 5: "lead_posts ?tr = ?lds # map (\<lambda>c. [formatLead c]) contacts"
    using lead_posts_individual[of ?lds] by (simp add: comp_def)
  from 1 2 3 4 5 show ?thesis by blast
qed

theorem addLeads_fallback_witness:
  "[\<lparr> email = JStr ''ann@example.org'', firstName = JStr ''Ann'', lastName = JStr [],
       title = JStr [], companyName = JStr [], linkedinUrl = ''https://www.linkedin.com/in/ann'',
       emailStatus = JStr ''verified'' \<rparr>,
    \<lparr> email = JStr ''bob@example.org'', firstName = JStr ''Bob'', lastName = JStr [],
       title = JStr [], companyName = JStr [], linkedinUrl = ''https://www.linkedin.com/in/bob'',
       emailStatus = JStr ''verified'' \<rparr>] \<noteq> []
   \<and> bulk_raises ((\<lambda>(k::nat) (lds::lead list). if k = 1 then Response (JObj []) else HttpFailure 500) 0
         (map formatLead
           [\<lparr> email = JStr ''ann@example.org'', firstName = JStr ''Ann'', lastName = JStr [],
               title = JStr [], companyName = JStr [], linkedinUrl = ''https://www.linkedin.com/in/ann'',
               emailStatus = JStr ''verified'' \<rparr>,
            \<lparr> email = JStr ''bob@example.org'', firstName = JStr ''Bob'', lastName = JStr [],
               title = JStr [], companyName = JStr [], linkedinUrl = ''https://www.linkedin.com/in/bob'',
               emailStatus = JStr ''verified'' \<rparr>]))
   \<and> (\<exists>outs tr.
        addLeads (\<lambda>(k::nat) (lds::lead list). if k = 1 then Response (JObj []) else HttpFailure 500)
          [\<lparr> email = JStr ''ann@example.org'', firstName = JStr ''Ann'', lastName = JStr [],
              title = JStr [], companyName = JStr [], linkedinUrl = ''https://www.linkedin.com/in/ann'',
              emailStatus = JStr ''verified'' \<rparr>,
           \<lparr> email = JStr ''bob@example.org'', firstName = JStr ''Bob'', lastName = JStr [],
              title = JStr [], companyName = JStr [], linkedinUrl = ''https://www.linkedin.com/in/bob'',
              emailStatus = JStr ''verified'' \<rparr>]
        = (\<lparr> added = JNum 1, failed = JNum 1, leads = Some outs, response = None \<rparr>, tr)
        \<and> map success outs = [True, False]
        \<and> map outcome_email outs = [JStr ''ann@example.org'', JStr ''bob@example.org'']
        \<and> length (lead_posts tr) = 3)"
proof -
  let ?ann = "\<lparr> email = JStr ''ann@example.org'', firstName = JStr ''Ann'', lastName = JStr [],
       title = JStr [], companyName = JStr [], linkedinUrl = ''https://www.linkedin.com/in/ann'',
       emailStatus = JStr ''verified'' \<rparr>"
  let ?bob = "\<lparr> email = JStr ''bob@example.org'', firstName = JStr ''Bob'', lastName = JStr [],
       title = JStr [], companyName = JStr [], linkedinUrl = ''https://www.linkedin.com/in/bob'',
       emailStatus = JStr ''verified'' \<rparr>"
  let ?sm = "\<lambda>(k::nat) (lds::lead list). if k = 1 then Response (JObj []) else HttpFailure 500"
  have h1: "[?ann, ?bob] \<noteq> []" by simp
  have h2: "bulk_raises (?sm 0 (map formatLead [?ann, ?bob]))" by simp
  from addLeads_fallback[of "[?ann, ?bob]" ?sm, OF h1 h2]
  obtain a f outs tr where
    e: "addLeads ?sm [?ann, ?bob]
       = (\<lparr> added = JNum a, failed = JNum f, leads = Some outs, response = None \<rparr>, tr)"
    and m: "map outcome_email outs = map email [?ann, ?bob]"
    and p: "lead_posts tr = map formatLead [?ann, ?bob] # map (\<lambda>c. [formatLead c]) [?ann, ?bob]"
    by blast
  have v: "added (fst (addLeads ?sm [?ann, ?bob])) = JNum 1"
    "failed (fst (addLeads ?sm [?ann, ?bob])) = JNum 1"
    "map_option (map success) (leads (fst (addLeads ?sm [?ann, ?bob]))) = Some [True, False]"
    by (simp_all add: addLeads_def addLeadsIndividually_def Let_def)
  from v e have af: "a = 1" "f = 1" and s: "map success outs = [True, False]" by simp_all
  from e af have e': "addLeads ?sm [?ann, ?bob]
        = (\<lparr> added = JNum 1, failed = JNum 1, leads = Some outs, response = None \<rparr>, tr)"
    by simp
  from m have m': "map outcome_email outs = [JStr ''ann@example.org'', JStr ''bob@example.org'']"
    by simp
  from p have p': "length (lead_posts tr) = 3" by simp
  have "\<exists>outs tr.
        addLeads ?sm [?ann, ?bob]
        = (\<lparr> added = JNum 1, failed = JNum 1, leads = Some outs, response = None \<rparr>, tr)
        \<and> map success outs = [True, False]
        \<and> map outcome_email outs = [JStr ''ann@example.org'', JStr ''bob@example.org'']
        \<and> length (lead_posts tr) = 3"
    by (intro exI[of _ outs] exI[of _ tr] conjI e' s m' p')
  with h1 h2 show ?thesis by (intro conjI)
qed

text \<open>
  C6. When the bulk upload succeeds and the backend reports that it uploaded no lead,
  \<open>upload_count: 0\<close>, the \<open>||\<close> chain takes the zero for a missing count and returns the
  number of leads submitted instead: here two leads sent, none uploaded and two failed
  according to the backend, and \<open>addLeads\<close> returns \<open>added = 2\<close>, \<open>failed = 2\<close>.
\<close>

theorem addLeads_zero_upload_count:
  "addLeads (\<lambda>k lds. Response (JObj [(''upload_count'', JNum 0), (''failed_count'', JNum 2)]))
     [c1, c2]
   = (\<lparr> added = JNum 2, failed = JNum 2, leads = None,
        response = Some (JObj [(''upload_count'', JNum 0), (''failed_count'', JNum 2)]) \<rparr>,
      [LeadPost [formatLead c1, formatLead c2]])"
  by (simp add: addLeads_def Let_def nullish_def js_or_def)

text \<open>What the bulk path returns when the backend's counts are present and not zero, and when they are absent.\<close>

lemma addLeads_reported_counts:
  "contacts \<noteq> [] \<Longrightarrow> u \<noteq> 0 \<Longrightarrow> f \<noteq> 0 \<Longrightarrow>
   fst (addLeads (\<lambda>k lds. Response (JObj [(''upload_count'', JNum u), (''failed_count'', JNum f)]))
          contacts)
   = \<lparr> added = JNum u, failed = JNum f, leads = None,
       response = Some (JObj [(''upload_count'', JNum u), (''failed_count'', JNum f)]) \<rparr>"
  by (simp add: addLeads_def Let_def nullish_def js_or_def)

lemma addLeads_default_counts:
  "contacts \<noteq> [] \<Longrightarrow>
   fst (addLeads (\<lambda>k lds. Response (JObj [])) contacts)
   = \<lparr> added = JNum (int (length contacts)), failed = JNum 0, leads = None,
       response = Some (JObj []) \<rparr>"
  by (simp add: addLeads_def Let_def nullish_def js_or_def)

section \<open>The controller without engagers\<close>

text \<open>
  Whatever the actor returns, a run whose scraper yields no profile URL and whose
  messages are accepted ends the same way.
\<close>

lemma runPipeline_no_engagers_any:
  "slack StatusScraping = None \<Longrightarrow> slack NoEngagersFound = None \<Longrightarrow>
   getPostEngagers actor postUrl = Inr [] \<Longrightarrow>
   runPipeline slack actor apollo smartlead postUrl
   = Some (Inr \<lparr> engagers = 0, enriched = 0, pushed = JNum 0, failed' = JNum 0 \<rparr>,
           [Notify StatusScraping, ActorRun postUrl, Notify NoEngagersFound])"
  by (simp add: runPipeline_def pipeline_body_def)

text \<open>
  The sibling branch, for contrast: with engagers but without verified emails the
  message is followed by the summary.
\<close>

lemma runPipeline_no_verified_emails:
  "runPipeline (\<lambda>n. None)
     (\<lambda>u. Inr [JObj [(''authorProfileUrl'', JStr ''https://www.linkedin.com/in/ann'')]])
     (\<lambda>u k. NoResponse) smartlead postUrl
   = Some (Inr \<lparr> engagers = 1, enriched = 0, pushed = JNum 0, failed' = JNum 0 \<rparr>,
           [Notify StatusScraping, ActorRun postUrl, Notify (StatusEnriching 1),
            Wave [''https://www.linkedin.com/in/ann''],
            ApolloMatch ''https://www.linkedin.com/in/ann'',
            Notify NoVerifiedEmails,
            Notify (Summary \<lparr> engagers = 1, enriched = 0, pushed = JNum 0, failed' = JNum 0 \<rparr>)])"
  by (simp add: runPipeline_def pipeline_body_def getPostEngagers_def extract_defs
      enrichProfiles_def chunkArray_def chunk_loop.simps enrich_batch_def enrichProfile.simps
      List.map_filter_def Let_def)

text \<open>
  C1. When the scraper yields no profile URL the run returns with all-zero statistics
  after the status message and the message that no engagers were found: neither the
  enricher nor the delivery submitter is called, and no summary of the statistics is
  sent, unlike in the branch without verified emails.
\<close>

theorem runPipeline_no_engagers:
  "runPipeline (\<lambda>n. None) (\<lambda>u. Inr []) apollo smartlead postUrl
   = Some (Inr \<lparr> engagers = 0, enriched = 0, pushed = JNum 0, failed' = JNum 0 \<rparr>,
           [Notify StatusScraping, ActorRun postUrl, Notify NoEngagersFound])"
  by (simp add: runPipeline_def pipeline_body_def getPostEngagers_def)

end
